theory Spec2Isabelle
  imports Complex_Main
begin

section \<open>Particle engine of ParticleCanvas: constants\<close>

text \<open>
  The component keeps all particles in flat buffers of \<open>3 * PARTICLE_COUNT\<close> numbers
  (particle \<open>i\<close> at offsets \<open>3 * i\<close>, \<open>3 * i + 1\<close>, \<open>3 * i + 2\<close>). JavaScript numbers are
  modelled as \<open>real\<close> (counters and indices as \<open>nat\<close> or \<open>int\<close>); calls of
  \<open>Math.random()\<close> and the clock are inputs of the functions that use them.
\<close>

definition FLOWER_COUNT :: nat where
  "FLOWER_COUNT = 150000"

definition BG_COUNT :: nat where
  "BG_COUNT = 30000"

definition PARTICLE_COUNT :: nat where
  "PARTICLE_COUNT = FLOWER_COUNT + BG_COUNT"

definition FIREWORK_PARTICLES_START :: nat where
  "FIREWORK_PARTICLES_START = FLOWER_COUNT"

section \<open>Mode state: debounce counter, mode flags and smoothed factors\<close>

record refs =
  magicModeDebounce :: int
  isMagicMode :: bool
  isGalaxyMode :: bool
  handFactor :: real
  galaxyTransition :: real
  magicTransition :: real

definition refs_init :: refs where
  "refs_init = \<lparr> magicModeDebounce = 0, isMagicMode = False, isGalaxyMode = False,
                 handFactor = 0, galaxyTransition = 0, magicTransition = 0 \<rparr>"

text \<open>The block "Smooth State Transition (Debounce)" of \<open>animate\<close>.\<close>

definition debounce_step :: "bool \<Rightarrow> refs \<Rightarrow> refs" where
  "debounce_step magicGestureDetected s =
     (let d = (if magicGestureDetected then min (magicModeDebounce s + 1) 10
               else max (magicModeDebounce s - 1) 0);
          s1 = s\<lparr> magicModeDebounce := d \<rparr>
      in if d > 6 then s1\<lparr> isMagicMode := True, isGalaxyMode := False \<rparr>
         else if d < 2 then s1\<lparr> isMagicMode := False \<rparr>
         else s1)"

fun debounce_run :: "bool list \<Rightarrow> refs \<Rightarrow> refs" where
  "debounce_run [] s = s"
| "debounce_run (g # gs) s = debounce_run gs (debounce_step g s)"

text \<open>Frame \<open>k\<close> (counted from 0) of the input sequence enters or leaves Magic mode.\<close>

definition magic_flip :: "bool list \<Rightarrow> nat \<Rightarrow> bool" where
  "magic_flip gs k \<longleftrightarrow>
     isMagicMode (debounce_run (take (Suc k) gs) refs_init)
       \<noteq> isMagicMode (debounce_run (take k gs) refs_init)"

text \<open>
  One processed video frame, as the sensor block of \<open>animate\<close> sees it after the
  landmark predicates have been evaluated: the thumb-tip to index-tip distance of the
  right hand when a right hand was detected, whether a left hand was detected, and the
  results of the two two-hand predicates (crossed sword fingers with wrists closer than
  0.35; wrists closer than 0.25 and pinky tips closer than 0.08).
\<close>

record hands =
  rightDist :: "real option"
  leftPresent :: bool
  magicPose :: bool
  palmsMerged :: bool

text \<open>
  The sensor block without its drawing and without the pinch burst (the burst is the
  operation \<open>spawnFirework\<close> below): debounce, right-hand bloom factor, galaxy flag.
\<close>

definition sensor_step :: "hands \<Rightarrow> refs \<Rightarrow> refs" where
  "sensor_step h s =
     (let magicGestureDetected = (rightDist h \<noteq> None \<and> leftPresent h \<and> magicPose h);
          s1 = debounce_step magicGestureDetected s;
          s2 = (case rightDist h of
                  Some dist1 \<Rightarrow>
                    if \<not> isMagicMode s1 then
                      (let target = max 0 (min 2.5 ((dist1 - 0.03) * 8.0))
                       in s1\<lparr> handFactor := handFactor s1 + (target - handFactor s1) * 0.2 \<rparr>)
                    else s1
                | None \<Rightarrow> s1\<lparr> handFactor := handFactor s1 + (0 - handFactor s1) * 0.05 \<rparr>)
      in if leftPresent h \<and> rightDist h \<noteq> None \<and> \<not> isMagicMode s2
         then s2\<lparr> isGalaxyMode := palmsMerged h \<rparr>
         else if \<not> isMagicMode s2 then s2\<lparr> isGalaxyMode := False \<rparr>
         else s2)"

text \<open>"Mode Transitions" at the start of the physics block, run on every animation frame.\<close>

definition transition_step :: "refs \<Rightarrow> refs" where
  "transition_step s =
     (let targetGalaxy = (if isGalaxyMode s then 1.0 else 0.0);
          s1 = s\<lparr> galaxyTransition :=
                    galaxyTransition s + (targetGalaxy - galaxyTransition s) * 0.08 \<rparr>;
          targetMagic = (if isMagicMode s1 then 1.0 else 0.0)
      in s1\<lparr> magicTransition :=
                magicTransition s1 + (targetMagic - magicTransition s1) * 0.1 \<rparr>)"

text \<open>One animation frame: the sensor block runs only when a new video frame is there.\<close>

definition frame_step :: "hands option \<Rightarrow> refs \<Rightarrow> refs" where
  "frame_step inp s =
     transition_step (case inp of None \<Rightarrow> s | Some h \<Rightarrow> sensor_step h s)"

fun refs_run :: "hands option list \<Rightarrow> refs \<Rightarrow> refs" where
  "refs_run [] s = s"
| "refs_run (inp # inps) s = refs_run inps (frame_step inp s)"

section \<open>Steady particles: target blend, integration and colour\<close>

type_synonym vec3 = "real \<times> real \<times> real"

record frame_env =
  timeNow :: real
  gT :: real
  mT :: real
  galaxyMode :: bool
  bloomFactor :: real
  mouse :: vec3

text \<open>
  The target of one steady particle (the lines from "Targets" to "Lerp to Magic" of the
  particle loop). \<open>l\<close>, \<open>g\<close>, \<open>m\<close> are the particle's Lotus, Galaxy and Magic
  positions, \<open>phase\<close> and \<open>amp\<close> its two drift entries, \<open>rnd\<close> the three random draws
  of the bloom jitter.
\<close>

definition steady_target ::
  "frame_env \<Rightarrow> vec3 \<Rightarrow> vec3 \<Rightarrow> vec3 \<Rightarrow> real \<Rightarrow> real \<Rightarrow> vec3 \<Rightarrow> vec3" where
  "steady_target e l g m phase amp rnd =
     (case l of (lx, ly, lz) \<Rightarrow> case g of (gx, gy, gz) \<Rightarrow>
      case m of (mx_t, my_t, mz_t) \<Rightarrow> case rnd of (r1, r2, r3) \<Rightarrow>
      let bloomScale = 1 + bloomFactor e * 2.0;
          bloomSpread = bloomFactor e * 2.5;
          spin1 = timeNow e * 0.0005;
          spin2 = - timeNow e * 0.001;
          spin3 = timeNow e * 0.002;
          tx = lx + (gx - lx) * gT e;
          ty = ly + (gy - ly) * gT e;
          tz = lz + (gz - lz) * gT e;
          (tx, ty, tz) =
            (if \<not> galaxyMode e \<and> bloomFactor e > 0.05 \<and> mT e < 0.1 then
               (let influence = 1 - gT e;
                    scale = 1 + (bloomScale - 1) * influence;
                    spread = bloomSpread * influence
                in (tx * scale + (r1 - 0.5) * spread * 0.5,
                    ty * scale + (r2 - 0.5) * spread * 0.5,
                    tz * scale + (r3 - 0.5) * spread * 0.5))
             else (tx, ty, tz));
          (tx, ty, tz) =
            (if \<not> galaxyMode e \<and> bloomFactor e < 0.1 \<and> mT e < 0.1 then
               (let freq = 0.0008
                in (tx + sin (timeNow e * freq + phase) * amp,
                    ty + cos (timeNow e * freq + phase * 0.5) * amp,
                    tz + sin (timeNow e * freq * 1.2 + phase) * amp))
             else (tx, ty, tz));
          (finalMx, finalMy) =
            (if mT e > 0.01 then
               (let dist1 = sqrt (mx_t * mx_t + my_t * my_t)
                in if dist1 > 1.9 then
                     (mx_t * cos spin1 - my_t * sin spin1, mx_t * sin spin1 + my_t * cos spin1)
                   else if dist1 > 1.3 \<and> dist1 < 1.6 then
                     (mx_t * cos spin2 - my_t * sin spin2, mx_t * sin spin2 + my_t * cos spin2)
                   else if dist1 < 1.0 then
                     (mx_t * cos spin3 - my_t * sin spin3, mx_t * sin spin3 + my_t * cos spin3)
                   else (mx_t, my_t))
             else (mx_t, my_t));
          finalMz = mz_t
      in (tx + (finalMx - tx) * mT e, ty + (finalMy - ty) * mT e, tz + (finalMz - tz) * mT e))"

text \<open>
  The stages of the target computation under the names the design gives them: linear
  interpolation, the bloom scale and jitter, the idle motion, and the spin of the Magic
  target. They are compared with \<open>steady_target\<close> below.
\<close>

definition lerp3 :: "vec3 \<Rightarrow> vec3 \<Rightarrow> real \<Rightarrow> vec3" where
  "lerp3 a b t =
     (case a of (ax, ay, az) \<Rightarrow> case b of (bx, by, bz) \<Rightarrow>
        (ax + (bx - ax) * t, ay + (by - ay) * t, az + (bz - az) * t))"

definition bloom_adjust :: "frame_env \<Rightarrow> vec3 \<Rightarrow> vec3 \<Rightarrow> vec3" where
  "bloom_adjust e rnd t =
     (case t of (tx, ty, tz) \<Rightarrow> case rnd of (r1, r2, r3) \<Rightarrow>
      if \<not> galaxyMode e \<and> bloomFactor e > 0.05 \<and> mT e < 0.1 then
        (let scale = 1 + ((1 + bloomFactor e * 2.0) - 1) * (1 - gT e);
             spread = bloomFactor e * 2.5 * (1 - gT e)
         in (tx * scale + (r1 - 0.5) * spread * 0.5,
             ty * scale + (r2 - 0.5) * spread * 0.5,
             tz * scale + (r3 - 0.5) * spread * 0.5))
      else t)"

definition idle_adjust :: "frame_env \<Rightarrow> real \<Rightarrow> real \<Rightarrow> vec3 \<Rightarrow> vec3" where
  "idle_adjust e phase amp t =
     (case t of (tx, ty, tz) \<Rightarrow>
      if \<not> galaxyMode e \<and> bloomFactor e < 0.1 \<and> mT e < 0.1 then
        (tx + sin (timeNow e * 0.0008 + phase) * amp,
         ty + cos (timeNow e * 0.0008 + phase * 0.5) * amp,
         tz + sin (timeNow e * 0.0008 * 1.2 + phase) * amp)
      else t)"

definition rotate_xy :: "real \<Rightarrow> vec3 \<Rightarrow> vec3" where
  "rotate_xy a m =
     (case m of (mx_t, my_t, mz_t) \<Rightarrow>
        (mx_t * cos a - my_t * sin a, mx_t * sin a + my_t * cos a, mz_t))"

definition magic_spin :: "frame_env \<Rightarrow> vec3 \<Rightarrow> vec3" where
  "magic_spin e m =
     (case m of (mx_t, my_t, mz_t) \<Rightarrow>
      if mT e > 0.01 then
        (let dist1 = sqrt (mx_t * mx_t + my_t * my_t)
         in if dist1 > 1.9 then rotate_xy (timeNow e * 0.0005) m
            else if dist1 > 1.3 \<and> dist1 < 1.6 then rotate_xy (- timeNow e * 0.001) m
            else if dist1 < 1.0 then rotate_xy (timeNow e * 0.002) m
            else m)
      else m)"

text \<open>The shape buffers generated once at start-up, and the buffers mutated per frame.\<close>

record shapes =
  lotusPos :: "nat \<Rightarrow> real"
  galPos :: "nat \<Rightarrow> real"
  magPos :: "nat \<Rightarrow> real"
  lotusCol :: "nat \<Rightarrow> real"
  galCol :: "nat \<Rightarrow> real"
  magCol :: "nat \<Rightarrow> real"

record buffers =
  curr :: "nat \<Rightarrow> real"
  drifts :: "nat \<Rightarrow> real"
  currCol :: "nat \<Rightarrow> real"

text \<open>"Color Morph" up to the Magic glow, for particle \<open>i\<close>.\<close>

definition steady_color :: "frame_env \<Rightarrow> shapes \<Rightarrow> nat \<Rightarrow> vec3" where
  "steady_color e sh i =
     (let ix = i * 3;
          r = lotusCol sh ix; g = lotusCol sh (ix + 1); b = lotusCol sh (ix + 2);
          r = r + (galCol sh ix - r) * gT e;
          g = g + (galCol sh (ix + 1) - g) * gT e;
          b = b + (galCol sh (ix + 2) - b) * gT e;
          (r, g, b) =
            (if gT e > 0.5 \<and> i mod 7 = 0 then
               (let speed = 0.003 + real (i mod 10) * 0.0005;
                    phase = real i * 0.1;
                    intensity = 0.8 + 0.5 * sin (timeNow e * speed + phase)
                in (r * intensity, g * intensity, b * intensity))
             else (r, g, b));
          r = r + (magCol sh ix - r) * mT e;
          g = g + (magCol sh (ix + 1) - g) * mT e;
          b = b + (magCol sh (ix + 2) - b) * mT e
      in if mT e > 0.01 then
           (let pulse = sin (timeNow e * 0.003) * 0.2 + 0.2;
                shimmer = sin (timeNow e * 0.01 + real ix) * 0.1;
                totalGlow = (pulse + shimmer) * mT e
            in (r + totalGlow, g + totalGlow * 0.8, b + totalGlow * 0.2))
         else (r, g, b))"

text \<open>
  The body of the particle loop for a particle that is not skipped. \<open>rnd i k\<close> is the
  \<open>k\<close>-th random draw made for particle \<open>i\<close> in this frame.
\<close>

definition steady_particle ::
  "frame_env \<Rightarrow> shapes \<Rightarrow> (nat \<Rightarrow> nat \<Rightarrow> real) \<Rightarrow> nat \<Rightarrow> buffers \<Rightarrow> buffers" where
  "steady_particle e sh rnd i b =
     (let ix = i * 3;
          (tx, ty, tz) =
            steady_target e
              (lotusPos sh ix, lotusPos sh (ix + 1), lotusPos sh (ix + 2))
              (galPos sh ix, galPos sh (ix + 1), galPos sh (ix + 2))
              (magPos sh ix, magPos sh (ix + 1), magPos sh (ix + 2))
              (drifts b ix) (drifts b (ix + 1)) (rnd i 0, rnd i 1, rnd i 2);
          damping = 0.05 + mT e * 0.1;
          cx = curr b ix + (tx - curr b ix) * damping;
          cy = curr b (ix + 1) + (ty - curr b (ix + 1)) * damping;
          cz = curr b (ix + 2) + (tz - curr b (ix + 2)) * damping;
          (r, g, bl) = steady_color e sh i;
          (mx, my, mz) = mouse e;
          dx = cx - mx; dy = cy - my; dz = cz - mz;
          distSq = dx * dx + dy * dy + dz * dz;
          (r, g, bl) = (if distSq < 0.2 then (min 1.0 (r + 0.4), min 1.0 (g + 0.4), min 1.0 (bl + 0.4))
                        else (r, g, bl));
          (cx, cy, cz) = (if distSq < 0.2 then
                            (cx + (rnd i 3 - 0.5) * 0.03, cy + (rnd i 4 - 0.5) * 0.03,
                             cz + (rnd i 5 - 0.5) * 0.03)
                          else (cx, cy, cz))
      in b\<lparr> curr := (curr b)(ix := cx, ix + 1 := cy, ix + 2 := cz),
            currCol := (currCol b)(ix := r, ix + 1 := g, ix + 2 := bl) \<rparr>)"

text \<open>The particle loop: every index of the buffer, skipping the active firework indices.\<close>

definition steady_pass ::
  "frame_env \<Rightarrow> shapes \<Rightarrow> (nat \<Rightarrow> nat \<Rightarrow> real) \<Rightarrow> nat set \<Rightarrow> buffers \<Rightarrow> buffers" where
  "steady_pass e sh rnd activeFireworkIndices b =
     fold (\<lambda>i b. if i \<in> activeFireworkIndices then b else steady_particle e sh rnd i b)
       [0 ..< PARTICLE_COUNT] b"

section \<open>Fireworks: slot allocator, spawn and per-frame update\<close>

record spark =
  headIdx :: nat
  trailIndices :: "nat list"

record firework =
  fwId :: int
  age :: nat
  color :: vec3
  sparks :: "spark list"

record burst =
  fireworkCursor :: nat
  fireworks :: "firework list"

definition burst_init :: burst where
  "burst_init = \<lparr> fireworkCursor = FIREWORK_PARTICLES_START, fireworks = [] \<rparr>"

definition TRAIL_LEN :: nat where
  "TRAIL_LEN = 12"

definition SPARK_CNT :: nat where
  "SPARK_CNT = 50"

text \<open>
  The loop of \<open>allocateParticles\<close>: \<open>alloc_loop n ptr\<close> runs \<open>n\<close> iterations from
  \<open>ptr\<close> and gives the indices pushed and the final \<open>ptr\<close>.
\<close>

fun alloc_loop :: "nat \<Rightarrow> nat \<Rightarrow> nat list \<times> nat" where
  "alloc_loop 0 ptr = ([], ptr)"
| "alloc_loop (Suc n) ptr =
     (let ptr' = (if ptr + 1 \<ge> PARTICLE_COUNT then FIREWORK_PARTICLES_START else ptr + 1);
          (indices, final) = alloc_loop n ptr'
      in (ptr # indices, final))"

definition allocateParticles :: "nat \<Rightarrow> nat \<Rightarrow> nat list \<times> nat" where
  "allocateParticles cursor count1 = alloc_loop count1 cursor"

text \<open>The inner loop of \<open>spawnFirework\<close> that takes up to \<open>t\<close> trail indices.\<close>

fun take_trail :: "nat \<Rightarrow> nat list \<Rightarrow> nat \<Rightarrow> nat list \<times> nat" where
  "take_trail 0 indices idxPtr = ([], idxPtr)"
| "take_trail (Suc t) indices idxPtr =
     (if idxPtr < length indices then
        (let (tr, p) = take_trail t indices (idxPtr + 1) in (indices ! idxPtr # tr, p))
      else take_trail t indices idxPtr)"

text \<open>
  "Init physics" for one new spark: the head at the spawn position with a random
  velocity and white colour, the trail collapsed onto the spawn position and black.
  \<open>rnd\<close> holds the three random draws (speed, theta, phi).
\<close>

definition init_spark :: "vec3 \<Rightarrow> vec3 \<Rightarrow> spark \<Rightarrow> buffers \<Rightarrow> buffers" where
  "init_spark position rnd sp b =
     (case position of (px, py, pz) \<Rightarrow> case rnd of (r1, r2, r3) \<Rightarrow>
      let speed = 0.03 + r1 * 0.05;
          theta = r2 * pi * 2;
          phi = r3 * pi;
          vx = speed * sin phi * cos theta;
          vy = speed * sin phi * sin theta;
          vz = speed * cos phi;
          h3 = headIdx sp * 3;
          c = (curr b)(h3 := px, h3 + 1 := py, h3 + 2 := pz);
          d = (drifts b)(h3 := vx, h3 + 1 := vy, h3 + 2 := vz);
          k = (currCol b)(h3 := 1, h3 + 1 := 1, h3 + 2 := 1)
      in fold (\<lambda>ti b. let t3 = ti * 3
                       in b\<lparr> curr := (curr b)(t3 := px, t3 + 1 := py, t3 + 2 := pz),
                             currCol := (currCol b)(t3 := 0, t3 + 1 := 0, t3 + 2 := 0) \<rparr>)
           (trailIndices sp) (b\<lparr> curr := c, drifts := d, currCol := k \<rparr>))"

text \<open>
  The spark loop of \<open>spawnFirework\<close>: \<open>n\<close> iterations left, \<open>k\<close> the number of the
  spark, \<open>idxPtr\<close> the read position in the allocated indices.
\<close>

fun spawn_loop ::
  "nat \<Rightarrow> nat \<Rightarrow> nat list \<Rightarrow> nat \<Rightarrow> vec3 \<Rightarrow> (nat \<Rightarrow> vec3) \<Rightarrow> buffers \<Rightarrow> spark list \<times> buffers" where
  "spawn_loop 0 k indices idxPtr position rnd b = ([], b)"
| "spawn_loop (Suc n) k indices idxPtr position rnd b =
     (if idxPtr \<ge> length indices then ([], b)
      else
        (let head = indices ! idxPtr;
             (tr, p) = take_trail TRAIL_LEN indices (idxPtr + 1);
             sp = \<lparr> headIdx = head, trailIndices = tr \<rparr>;
             (sps, b') = spawn_loop n (k + 1) indices p position rnd (init_spark position (rnd k) sp b)
         in (sp # sps, b')))"

text \<open>
  \<open>spawnFirework\<close>; the clock value used as id, the random base colour and the random
  draws of the sparks are inputs.
\<close>

definition spawnFirework ::
  "vec3 \<Rightarrow> int \<Rightarrow> vec3 \<Rightarrow> (nat \<Rightarrow> vec3) \<Rightarrow> burst \<times> buffers \<Rightarrow> burst \<times> buffers" where
  "spawnFirework position now baseColor rnd st =
     (case st of (bs, b) \<Rightarrow>
      let totalNeeded = SPARK_CNT * (1 + TRAIL_LEN);
          (indices, cursor') = allocateParticles (fireworkCursor bs) totalNeeded;
          (sps, b') = spawn_loop SPARK_CNT 0 indices 0 position rnd b
      in (bs\<lparr> fireworkCursor := cursor',
               fireworks := fireworks bs @ [\<lparr> fwId = now, age = 0, color = baseColor, sparks = sps \<rparr>] \<rparr>,
          b'))"

text \<open>All particle indices a spark or a firework holds.\<close>

definition spark_indices :: "spark \<Rightarrow> nat list" where
  "spark_indices sp = headIdx sp # trailIndices sp"

definition firework_indices :: "firework \<Rightarrow> nat list" where
  "firework_indices fw = concat (map spark_indices (sparks fw))"

text \<open>
  "Propagate Trail (Snake)": the loop \<open>for (t = length - 1; t > 0; t--)\<close> on the position
  and colour buffers; \<open>trail_shift lifeRatio col tr n\<close> runs it for \<open>t = n, ..., 1\<close>.
\<close>

fun trail_shift ::
  "real \<Rightarrow> vec3 \<Rightarrow> nat list \<Rightarrow> nat \<Rightarrow> (nat \<Rightarrow> real) \<times> (nat \<Rightarrow> real)
     \<Rightarrow> (nat \<Rightarrow> real) \<times> (nat \<Rightarrow> real)" where
  "trail_shift lifeRatio col tr 0 ck = ck"
| "trail_shift lifeRatio col tr (Suc n) ck =
     (case ck of (c, k) \<Rightarrow> case col of (cr, cg, cb) \<Rightarrow>
      let t = Suc n;
          currT = tr ! t * 3;
          prevT = tr ! (t - 1) * 3;
          c1 = c(currT := c prevT);
          c2 = c1(currT + 1 := c1 (prevT + 1));
          c3 = c2(currT + 2 := c2 (prevT + 2));
          tRatio = real t / real (length tr);
          intensity = lifeRatio * (1 - tRatio) * 0.8;
          k3 = k(currT := cr * intensity, currT + 1 := cg * intensity, currT + 2 := cb * intensity)
      in trail_shift lifeRatio col tr n (c3, k3))"

text \<open>The body of \<open>fw.sparks.forEach\<close> on the buffers, for a firework of the given age and colour.\<close>

definition update_spark :: "nat \<Rightarrow> vec3 \<Rightarrow> spark \<Rightarrow> buffers \<Rightarrow> buffers" where
  "update_spark fwAge fwColor sp b =
     (case fwColor of (cr, cg, cb) \<Rightarrow>
      let gravity = 0.004;
          drag = 0.96;
          headI = headIdx sp * 3;
          tr = trailIndices sp;
          prevHX = curr b headI;
          prevHY = curr b (headI + 1);
          prevHZ = curr b (headI + 2);
          d1 = (drifts b)(headI + 1 := drifts b (headI + 1) - gravity);
          d2 = d1(headI := d1 headI * drag);
          d3 = d2(headI + 1 := d2 (headI + 1) * drag);
          d4 = d3(headI + 2 := d3 (headI + 2) * drag);
          c1 = (curr b)(headI := curr b headI + d4 headI);
          c2 = c1(headI + 1 := c1 (headI + 1) + d4 (headI + 1));
          c3 = c2(headI + 2 := c2 (headI + 2) + d4 (headI + 2));
          lifeRatio = max 0 (1 - real fwAge / 90);
          k1 = (currCol b)(headI := cr, headI + 1 := cg, headI + 2 := cb);
          (c4, k2) = trail_shift lifeRatio fwColor tr (length tr - 1) (c3, k1);
          (c5, k3) =
            (if length tr > 0 then
               (let t0 = tr ! 0 * 3
                in (c4(t0 := prevHX, t0 + 1 := prevHY, t0 + 2 := prevHZ),
                    k2(t0 := cr * lifeRatio * 0.9, t0 + 1 := cg * lifeRatio * 0.9,
                       t0 + 2 := cb * lifeRatio * 0.9)))
             else (c4, k2))
      in b\<lparr> curr := c5, drifts := d4, currCol := k3 \<rparr>)"

text \<open>
  The callback of \<open>fireworksRef.current.filter\<close> for one firework: the age is
  incremented, every spark is marked active and updated, and the firework is kept while
  its age is below 90.
\<close>

definition update_firework ::
  "firework \<Rightarrow> buffers \<times> nat set \<Rightarrow> (firework \<times> bool) \<times> buffers \<times> nat set" where
  "update_firework fw st =
     (let fw' = fw\<lparr> age := age fw + 1 \<rparr>;
          st' = fold (\<lambda>sp (b, act).
                   (update_spark (age fw') (color fw') sp b,
                    insert (headIdx sp) act \<union> set (trailIndices sp)))
                 (sparks fw') st
      in ((fw', age fw' < 90), st'))"

fun fireworks_filter ::
  "firework list \<Rightarrow> buffers \<times> nat set \<Rightarrow> firework list \<times> buffers \<times> nat set" where
  "fireworks_filter [] st = ([], st)"
| "fireworks_filter (fw # fws) st =
     (case update_firework fw st of ((fw', keep), st') \<Rightarrow>
      case fireworks_filter fws st' of (kept, st'') \<Rightarrow>
        ((if keep then fw' # kept else kept), st''))"

text \<open>
  "Particle Update" of one animation frame: the active set starts empty, the fireworks
  are updated, then the steady pass runs.
\<close>

definition animate_particles ::
  "frame_env \<Rightarrow> shapes \<Rightarrow> (nat \<Rightarrow> nat \<Rightarrow> real) \<Rightarrow> burst \<times> buffers \<Rightarrow> burst \<times> buffers" where
  "animate_particles e sh rnd st =
     (case st of (bs, b) \<Rightarrow>
      case fireworks_filter (fireworks bs) (b, {}) of (kept, b1, activeFireworkIndices) \<Rightarrow>
        (bs\<lparr> fireworks := kept \<rparr>, steady_pass e sh rnd activeFireworkIndices b1))"

text \<open>An execution: spawn triggers (pinch or click) and animation frames, in any order.\<close>

datatype event =
  Spawn vec3 int vec3 "nat \<Rightarrow> vec3"
| Frame frame_env shapes "nat \<Rightarrow> nat \<Rightarrow> real"

fun engine_step :: "event \<Rightarrow> burst \<times> buffers \<Rightarrow> burst \<times> buffers" where
  "engine_step (Spawn position now baseColor rnd) st = spawnFirework position now baseColor rnd st"
| "engine_step (Frame e sh rnd) st = animate_particles e sh rnd st"

fun engine_run :: "event list \<Rightarrow> burst \<times> buffers \<Rightarrow> burst \<times> buffers" where
  "engine_run [] st = st"
| "engine_run (ev # evs) st = engine_run evs (engine_step ev st)"

text \<open>
  The number of fireworks that fit into one lap of the allocator's ring, and the runs in
  which no spawn happens while that many fireworks are alive.
\<close>

definition MAX_BURSTS :: nat where
  "MAX_BURSTS = (PARTICLE_COUNT - FIREWORK_PARTICLES_START) div (SPARK_CNT * (1 + TRAIL_LEN))"

fun is_spawn :: "event \<Rightarrow> bool" where
  "is_spawn (Spawn position now baseColor rnd) = True"
| "is_spawn (Frame e sh rnd) = False"

fun within_capacity :: "event list \<Rightarrow> burst \<times> buffers \<Rightarrow> bool" where
  "within_capacity [] st = True"
| "within_capacity (ev # evs) st =
     ((if is_spawn ev then length (fireworks (fst st)) < MAX_BURSTS else True)
      \<and> within_capacity evs (engine_step ev st))"

definition fireworks_disjoint :: "firework list \<Rightarrow> bool" where
  "fireworks_disjoint fws \<longleftrightarrow>
     (\<forall>i < length fws. \<forall>j < length fws. i \<noteq> j \<longrightarrow>
        set (firework_indices (fws ! i)) \<inter> set (firework_indices (fws ! j)) = {})"

section \<open>Lotus generator: which region each index is given to\<close>

text \<open>
  \<open>generateLotus\<close> fills its buffers through one running index \<open>pIndex\<close>. The model keeps
  the index bookkeeping of its loops and records, for every index written, the region
  whose code wrote it; the random coordinates and colours are left out.
\<close>

datatype region = Pod | Petal nat | Background

definition podCount :: nat where
  "podCount = 10000"

text \<open>The \<open>count\<close> fields of the five petal layers.\<close>

definition layers :: "nat list" where
  "layers = [6, 9, 12, 16, 20]"

fun pod_loop :: "nat \<Rightarrow> nat \<Rightarrow> (nat \<Rightarrow> region option) \<Rightarrow> nat \<times> (nat \<Rightarrow> region option)" where
  "pod_loop 0 pIndex tags = (pIndex, tags)"
| "pod_loop (Suc n) pIndex tags = pod_loop n (pIndex + 1) (tags(pIndex \<mapsto> Pod))"

text \<open>The loop over \<open>k\<close> of one petal, with its \<open>break\<close> at \<open>pIndex >= FLOWER_COUNT\<close>.\<close>

fun petal_loop ::
  "nat \<Rightarrow> nat \<Rightarrow> nat \<Rightarrow> (nat \<Rightarrow> region option) \<Rightarrow> nat \<times> (nat \<Rightarrow> region option)" where
  "petal_loop layer 0 pIndex tags = (pIndex, tags)"
| "petal_loop layer (Suc n) pIndex tags =
     (if pIndex \<ge> FLOWER_COUNT then (pIndex, tags)
      else petal_loop layer n (pIndex + 1) (tags(pIndex \<mapsto> Petal layer)))"

text \<open>The loop over the petals \<open>p\<close> of one layer.\<close>

fun layer_loop ::
  "nat \<Rightarrow> nat \<Rightarrow> nat \<Rightarrow> nat \<Rightarrow> (nat \<Rightarrow> region option) \<Rightarrow> nat \<times> (nat \<Rightarrow> region option)" where
  "layer_loop layer partsPerPetal 0 pIndex tags = (pIndex, tags)"
| "layer_loop layer partsPerPetal (Suc n) pIndex tags =
     (case petal_loop layer partsPerPetal pIndex tags of (pIndex', tags') \<Rightarrow>
        layer_loop layer partsPerPetal n pIndex' tags')"

text \<open>\<open>layers.forEach\<close>; \<open>layer\<close> numbers the layers from 0.\<close>

fun layers_loop ::
  "nat \<Rightarrow> nat list \<Rightarrow> nat \<Rightarrow> nat \<Rightarrow> (nat \<Rightarrow> region option) \<Rightarrow> nat \<times> (nat \<Rightarrow> region option)" where
  "layers_loop layer [] particlesPerLayer pIndex tags = (pIndex, tags)"
| "layers_loop layer (cnt # rest) particlesPerLayer pIndex tags =
     (case layer_loop layer (particlesPerLayer div cnt) cnt pIndex tags of (pIndex', tags') \<Rightarrow>
        layers_loop (layer + 1) rest particlesPerLayer pIndex' tags')"

text \<open>The background loop \<open>for (i = pIndex; i < PARTICLE_COUNT; i++)\<close>, \<open>n\<close> iterations from \<open>i\<close>.\<close>

fun background_loop :: "nat \<Rightarrow> nat \<Rightarrow> (nat \<Rightarrow> region option) \<Rightarrow> (nat \<Rightarrow> region option)" where
  "background_loop 0 i tags = tags"
| "background_loop (Suc n) i tags = background_loop n (i + 1) (tags(i \<mapsto> Background))"

text \<open>The value of \<open>pIndex\<close> after the petals, and the region of every index.\<close>

definition generateLotus :: "nat \<times> (nat \<Rightarrow> region option)" where
  "generateLotus =
     (case pod_loop podCount 0 Map.empty of (pIndex, tags) \<Rightarrow>
      let totalPetalParticles = FLOWER_COUNT - pIndex;
          particlesPerLayer = totalPetalParticles div length layers
      in case layers_loop 0 layers particlesPerLayer pIndex tags of (pIndex', tags') \<Rightarrow>
           (pIndex', background_loop (PARTICLE_COUNT - pIndex') pIndex' tags'))"

section \<open>Pointer: intersection with the plane \<open>Z = 0\<close>\<close>

record ray =
  origin :: vec3
  direction :: vec3

record plane =
  normal :: vec3
  planeConstant :: real

definition dot3 :: "vec3 \<Rightarrow> vec3 \<Rightarrow> real" where
  "dot3 a b = (case a of (ax, ay, az) \<Rightarrow> case b of (bx, by, bz) \<Rightarrow> ax * bx + ay * by + az * bz)"

text \<open>
  Modelled from the spec: \<open>Ray.distanceToPlane\<close> and \<open>Ray.intersectPlane\<close> of the
  three.js library, which the component calls and which are not among the repository's
  sources. The spec's words are that a pointer ray parallel to the plane has no
  intersection and that the previous world point is then left unchanged: the call gives
  no result and does not write its target vector. The other cases follow the library:
  the origin when the ray lies in the plane, no result when the plane is behind the ray,
  and \<open>origin + t * direction\<close> otherwise.
\<close>

definition distanceToPlane :: "ray \<Rightarrow> plane \<Rightarrow> real option" where
  "distanceToPlane r pl =
     (let denominator = dot3 (normal pl) (direction r)
      in if denominator = 0 then
           (if dot3 (normal pl) (origin r) + planeConstant pl = 0 then Some 0 else None)
         else
           (let t = - (dot3 (origin r) (normal pl) + planeConstant pl) / denominator
            in if t \<ge> 0 then Some t else None))"

definition intersectPlane :: "ray \<Rightarrow> plane \<Rightarrow> vec3 option" where
  "intersectPlane r pl =
     (case distanceToPlane r pl of
        None \<Rightarrow> None
      | Some t \<Rightarrow>
          (case origin r of (ox, oy, oz) \<Rightarrow> case direction r of (dx, dy, dz) \<Rightarrow>
             Some (ox + dx * t, oy + dy * t, oz + dz * t)))"

definition planeRef :: plane where
  "planeRef = \<lparr> normal = (0, 0, 1), planeConstant = 0 \<rparr>"

text \<open>
  "Update Mouse Position in 3D" of \<open>animate\<close>: the pointer ray is intersected with the
  plane, with \<open>mouseWorldPosRef.current\<close> as the target vector of the call.
\<close>

definition update_mouseWorldPos :: "ray \<Rightarrow> vec3 \<Rightarrow> vec3" where
  "update_mouseWorldPos r mouseWorldPos =
     (case intersectPlane r planeRef of None \<Rightarrow> mouseWorldPos | Some p \<Rightarrow> p)"

text \<open>
  \<open>handleClick\<close>: nothing without a camera (no ray); otherwise a fresh zero vector is the
  target of the intersection call, and as an object it passes the test \<open>if (target)\<close>
  whatever the call returned, so the burst is spawned at it.
\<close>

definition click_target :: "ray option \<Rightarrow> vec3 option" where
  "click_target cam =
     (case cam of
        None \<Rightarrow> None
      | Some r \<Rightarrow>
          (let target = (0, 0, 0)
           in Some (case intersectPlane r planeRef of None \<Rightarrow> target | Some p \<Rightarrow> p)))"

definition handleClick ::
  "ray option \<Rightarrow> int \<Rightarrow> vec3 \<Rightarrow> (nat \<Rightarrow> vec3) \<Rightarrow> burst \<times> buffers \<Rightarrow> burst \<times> buffers" where
  "handleClick cam now baseColor rnd st =
     (case click_target cam of
        None \<Rightarrow> st
      | Some target \<Rightarrow> spawnFirework target now baseColor rnd st)"

section \<open>Auxiliary definitions for the statements below\<close>

text \<open>What holds of the debounce counter and the Magic flag after every update.\<close>

definition debounce_inv :: "refs \<Rightarrow> bool" where
  "debounce_inv s \<longleftrightarrow> 0 \<le> magicModeDebounce s \<and> magicModeDebounce s \<le> 10
     \<and> (6 < magicModeDebounce s \<longrightarrow> isMagicMode s)
     \<and> (magicModeDebounce s < 2 \<longrightarrow> \<not> isMagicMode s)"

definition refs_inv :: "refs \<Rightarrow> bool" where
  "refs_inv s \<longleftrightarrow> 0 \<le> galaxyTransition s \<and> galaxyTransition s \<le> 1
     \<and> 0 \<le> magicTransition s \<and> magicTransition s \<le> 1
     \<and> 0 \<le> handFactor s \<and> handFactor s \<le> 2.5"

text \<open>A right hand alone, thumb and index tips half the image apart.\<close>

definition open_hand :: hands where
  "open_hand = \<lparr> rightDist = Some 0.5, leftPresent = False, magicPose = False, palmsMerged = False \<rparr>"

text \<open>Two frame settings: both weights at 1, and the bloom fully open with both weights at 0.\<close>

definition env_both :: frame_env where
  "env_both = \<lparr> timeNow = 0, gT = 1, mT = 1, galaxyMode = False, bloomFactor = 1, mouse = (9999, 9999, 9999) \<rparr>"

definition env_bloom :: frame_env where
  "env_bloom = \<lparr> timeNow = 0, gT = 0, mT = 0, galaxyMode = False, bloomFactor = 1, mouse = (9999, 9999, 9999) \<rparr>"

text \<open>A pointer ray from the camera position that runs parallel to the plane \<open>Z = 0\<close>.\<close>

definition ray_parallel :: ray where
  "ray_parallel = \<lparr> origin = (0, 2.2, 3.5), direction = (1, 0, 0) \<rparr>"

text \<open>
  The index at offset \<open>m\<close> of the allocator's ring, counted from the start of the
  reserved range, and the firework a spawn has just added.
\<close>

definition ring_index :: "nat \<Rightarrow> nat" where
  "ring_index m = FIREWORK_PARTICLES_START + m mod (PARTICLE_COUNT - FIREWORK_PARTICLES_START)"

definition newest :: "burst \<times> buffers \<Rightarrow> firework" where
  "newest st = last (fireworks (fst st))"

definition buffers_zero :: buffers where
  "buffers_zero = \<lparr> curr = (\<lambda>i. 0), drifts = (\<lambda>i. 0), currCol = (\<lambda>i. 0) \<rparr>"

text \<open>
  The three entries of particle \<open>i\<close> in a flat buffer, and the buffer with these three
  entries replaced.
\<close>

definition vec_at :: "(nat \<Rightarrow> real) \<Rightarrow> nat \<Rightarrow> vec3" where
  "vec_at f i = (f (i * 3), f (i * 3 + 1), f (i * 3 + 2))"

definition set3 :: "(nat \<Rightarrow> real) \<Rightarrow> nat \<Rightarrow> vec3 \<Rightarrow> (nat \<Rightarrow> real)" where
  "set3 f i v = (case v of (a, b, c) \<Rightarrow> f(i * 3 := a, i * 3 + 1 := b, i * 3 + 2 := c))"

definition scale3 :: "vec3 \<Rightarrow> real \<Rightarrow> vec3" where
  "scale3 v s = (case v of (a, b, c) \<Rightarrow> (a * s, b * s, c * s))"

text \<open>
  The colour factor of trail position \<open>t\<close> (of \<open>len\<close>) in a firework of the given age, and
  the velocity of a head after gravity and drag.
\<close>

definition trail_intensity :: "nat \<Rightarrow> nat \<Rightarrow> nat \<Rightarrow> real" where
  "trail_intensity fwAge len t =
     (if t = 0 then max 0 (1 - real fwAge / 90) * 0.9
      else max 0 (1 - real fwAge / 90) * (1 - real t / real len) * 0.8)"

definition head_velocity :: "vec3 \<Rightarrow> vec3" where
  "head_velocity v = (case v of (vx, vy, vz) \<Rightarrow> (vx * 0.96, (vy - 0.004) * 0.96, vz * 0.96))"

definition add3 :: "vec3 \<Rightarrow> vec3 \<Rightarrow> vec3" where
  "add3 u v = (case u of (a, b, c) \<Rightarrow> case v of (a', b', c') \<Rightarrow> (a + a', b + b', c + c'))"

text \<open>The buffers after the firework update of one frame, before the steady pass.\<close>

definition fireworks_buffers :: "firework list \<Rightarrow> buffers \<Rightarrow> buffers" where
  "fireworks_buffers fws b = fst (snd (fireworks_filter fws (b, {})))"

text \<open>The spark updates of one frame in the order in which they run.\<close>

definition spark_jobs :: "firework list \<Rightarrow> (nat \<times> vec3 \<times> spark) list" where
  "spark_jobs fws = concat (map (\<lambda>fw. map (\<lambda>sp. (age fw + 1, color fw, sp)) (sparks fw)) fws)"

definition job_indices :: "nat \<times> vec3 \<times> spark \<Rightarrow> nat list" where
  "job_indices j = spark_indices (snd (snd j))"

definition run_job :: "nat \<times> vec3 \<times> spark \<Rightarrow> buffers \<Rightarrow> buffers" where
  "run_job j b = update_spark (fst j) (fst (snd j)) (snd (snd j)) b"

text \<open>A firework of one spark with a trail of two, and buffers to run it on.\<close>

definition spark_small :: spark where
  "spark_small = \<lparr> headIdx = 150000, trailIndices = [150001, 150002] \<rparr>"

definition fw_small :: firework where
  "fw_small = \<lparr> fwId = 0, age = 0, color = (1, 1, 1), sparks = [spark_small] \<rparr>"

definition buffers_count :: buffers where
  "buffers_count = \<lparr> curr = (\<lambda>i. real i), drifts = (\<lambda>i. 0), currCol = (\<lambda>i. 0) \<rparr>"

text \<open>The small firework one update before it is removed, and a burst state holding it.\<close>

definition fw_old :: firework where
  "fw_old = fw_small\<lparr> age := 89 \<rparr>"

definition burst_small :: burst where
  "burst_small = \<lparr> fireworkCursor = 150003, fireworks = [fw_small] \<rparr>"

definition shapes_zero :: shapes where
  "shapes_zero = \<lparr> lotusPos = (\<lambda>i. 0), galPos = (\<lambda>i. 0), magPos = (\<lambda>i. 0),
                    lotusCol = (\<lambda>i. 0), galCol = (\<lambda>i. 0), magCol = (\<lambda>i. 0) \<rparr>"

text \<open>
  The indices of one spawn that starts at ring offset \<open>a\<close>, and the shape of a burst
  state after \<open>v\<close> slots have been handed out in total: the cursor is at offset \<open>v\<close>, the
  live fireworks hold, newest first, the segments that end at the cursor, and they are
  listed oldest first.
\<close>

definition ring_seg :: "nat \<Rightarrow> nat list" where
  "ring_seg a = map (\<lambda>m. ring_index (a + m)) [0 ..< SPARK_CNT * (1 + TRAIL_LEN)]"

definition burst_ring :: "nat \<Rightarrow> burst \<Rightarrow> bool" where
  "burst_ring v bs \<longleftrightarrow>
     fireworkCursor bs = ring_index v
     \<and> SPARK_CNT * (1 + TRAIL_LEN) * length (fireworks bs) \<le> v
     \<and> map firework_indices (rev (fireworks bs))
         = map (\<lambda>k. ring_seg (v - SPARK_CNT * (1 + TRAIL_LEN) * (k + 1))) [0 ..< length (fireworks bs)]
     \<and> sorted_wrt (\<lambda>f g. age g \<le> age f) (fireworks bs)"

text \<open>A click burst at the origin, and 47 of them with no animation frame in between.\<close>

definition click :: event where
  "click = Spawn (0, 0, 0) 0 (1, 1, 1) (\<lambda>k. (0, 0, 0))"

definition clicks47 :: "event list" where
  "clicks47 = replicate 47 click"

text \<open>Two click bursts with one animation frame between them.\<close>

definition click_frame_click :: "event list" where
  "click_frame_click = [click, Frame env_both shapes_zero (\<lambda>i k. 0), click]"

text \<open>The state after one click burst, its firework and that firework's first spark.\<close>

definition one_click :: "burst \<times> buffers" where
  "one_click = engine_run [click] (burst_init, buffers_zero)"

definition first_spark :: spark where
  "first_spark = hd (sparks (newest one_click))"

text \<open>
  The spark that a spawn builds from the thirteen ring slots starting at offset \<open>a\<close>, the
  firework that a click burst records when the cursor is at offset \<open>v\<close>, and the velocity
  that \<open>spawnFirework\<close> gives a head from its three random draws.
\<close>

definition ring_spark :: "nat \<Rightarrow> spark" where
  "ring_spark a = \<lparr> headIdx = ring_index a,
                    trailIndices = map (\<lambda>m. ring_index (a + 1 + m)) [0 ..< 12] \<rparr>"

definition click_fw :: "nat \<Rightarrow> firework" where
  "click_fw v = \<lparr> fwId = 0, age = 0, color = (1, 1, 1),
                  sparks = map (\<lambda>i. ring_spark (v + 13 * i)) [0 ..< 50] \<rparr>"

definition spark_velocity :: "vec3 \<Rightarrow> vec3" where
  "spark_velocity rnd =
     (case rnd of (r1, r2, r3) \<Rightarrow>
        ((0.03 + r1 * 0.05) * sin (r3 * pi) * cos (r2 * pi * 2),
         (0.03 + r1 * 0.05) * sin (r3 * pi) * sin (r2 * pi * 2),
         (0.03 + r1 * 0.05) * cos (r3 * pi)))"

text \<open>
  The state after the 47 clicks, its last firework, and the spark of that firework whose
  trail runs over the end of the reserved range back to its start.
\<close>

definition state47 :: "burst \<times> buffers" where
  "state47 = engine_run clicks47 (burst_init, buffers_zero)"

definition fw_last :: firework where
  "fw_last = fireworks (fst state47) ! 46"

definition spark_wrapped :: spark where
  "spark_wrapped = sparks fw_last ! 7"

text \<open>
  An animation frame, and two executions: two clicks one frame apart followed by 88
  frames, and one click, a frame, 46 more clicks and 88 frames. In both the first
  firework has reached the age of 89.
\<close>

definition frame0 :: event where
  "frame0 = Frame env_both shapes_zero (\<lambda>i k. 0)"

definition lifecycle_run :: "event list" where
  "lifecycle_run = [click, frame0, click] @ replicate 88 frame0"

definition lifecycle_state :: "burst \<times> buffers" where
  "lifecycle_state = engine_run lifecycle_run (burst_init, buffers_zero)"

definition crowded_run :: "event list" where
  "crowded_run = [click, frame0] @ replicate 46 click @ replicate 88 frame0"

definition crowded_state :: "burst \<times> buffers" where
  "crowded_state = engine_run crowded_run (burst_init, buffers_zero)"

section \<open>Debounce: hysteresis\<close>

lemma debounce_run_append:
  "debounce_run (xs @ ys) s = debounce_run ys (debounce_run xs s)"
  by (induction xs arbitrary: s) simp_all

lemma debounce_run_snoc:
  "debounce_run (xs @ [g]) s = debounce_step g (debounce_run xs s)"
  by (simp add: debounce_run_append)

lemma debounce_inv_step: "debounce_inv s \<Longrightarrow> debounce_inv (debounce_step g s)"
  by (auto simp: debounce_inv_def debounce_step_def Let_def)

lemma debounce_inv_run: "debounce_inv s \<Longrightarrow> debounce_inv (debounce_run gs s)"
  by (induction gs arbitrary: s) (simp_all add: debounce_inv_step)

lemma debounce_inv_init: "debounce_inv refs_init"
  by (simp add: debounce_inv_def refs_init_def)

text \<open>Leaving Magic mode from a counter of at least \<open>7 - j\<close> takes at least \<open>6 - j\<close> frames.\<close>

lemma magic_stays:
  "isMagicMode s \<Longrightarrow> 7 - int j \<le> magicModeDebounce s
     \<Longrightarrow> \<not> isMagicMode (debounce_run gs s) \<Longrightarrow> 6 \<le> length gs + j"
proof (induction gs arbitrary: s j)
  case Nil
  then show ?case by simp
next
  case (Cons g gs)
  let ?s' = "debounce_step g s"
  show ?case
  proof (cases "isMagicMode ?s'")
    case True
    have "7 - int (Suc j) \<le> magicModeDebounce ?s'"
      using Cons.prems(2) by (auto simp: debounce_step_def Let_def)
    from Cons.IH [OF True this] Cons.prems(3) show ?thesis by simp
  next
    case False
    have "5 \<le> j"
      using False Cons.prems(1,2) by (auto simp: debounce_step_def Let_def split: if_splits)
    then show ?thesis by simp
  qed
qed

text \<open>Entering Magic mode from a counter of at most \<open>1 + j\<close> takes at least \<open>6 - j\<close> frames.\<close>

lemma magic_stays_off:
  "\<not> isMagicMode s \<Longrightarrow> magicModeDebounce s \<le> 1 + int j
     \<Longrightarrow> isMagicMode (debounce_run gs s) \<Longrightarrow> 6 \<le> length gs + j"
proof (induction gs arbitrary: s j)
  case Nil
  then show ?case by simp
next
  case (Cons g gs)
  let ?s' = "debounce_step g s"
  show ?case
  proof (cases "isMagicMode ?s'")
    case False
    have "magicModeDebounce ?s' \<le> 1 + int (Suc j)"
      using Cons.prems(2) by (auto simp: debounce_step_def Let_def)
    from Cons.IH [OF False this] Cons.prems(3) show ?thesis by simp
  next
    case True
    have "5 \<le> j"
      using True Cons.prems(1,2) by (auto simp: debounce_step_def Let_def split: if_splits)
    then show ?thesis by simp
  qed
qed

text \<open>The counter right after a flip: 7 on entering, 1 on leaving.\<close>

lemma flip_counter:
  assumes "debounce_inv s" "isMagicMode (debounce_step g s) \<noteq> isMagicMode s"
  shows "magicModeDebounce (debounce_step g s) = (if isMagicMode s then 1 else 7)"
  using assms by (auto simp: debounce_inv_def debounce_step_def Let_def split: if_splits)

lemma magic_flip_gap:
  assumes "k1 < k2" "magic_flip gs k1" "magic_flip gs k2"
  shows "k1 + 6 \<le> k2"
proof -
  have len2: "k2 < length gs"
  proof (rule ccontr)
    assume "\<not> k2 < length gs"
    then have "take (Suc k2) gs = take k2 gs" by simp
    with assms(3) show False by (simp add: magic_flip_def)
  qed
  with assms(1) have len1: "Suc k1 \<le> length gs" by simp
  define s0 where "s0 = debounce_run (take k1 gs) refs_init"
  define s1 where "s1 = debounce_step (gs ! k1) s0"
  define mid where "mid = drop (Suc k1) (take k2 gs)"
  define s2 where "s2 = debounce_run mid s1"
  define s3 where "s3 = debounce_step (gs ! k2) s2"
  have t1: "take (Suc k1) gs = take k1 gs @ [gs ! k1]"
    using len1 by (simp add: take_Suc_conv_app_nth)
  have t2: "take (Suc k2) gs = take k2 gs @ [gs ! k2]"
    using len2 by (simp add: take_Suc_conv_app_nth)
  have e: "take (Suc k1) (take k2 gs) = take (Suc k1) gs"
    using assms(1) by (simp add: min_def)
  have "take k2 gs = take (Suc k1) (take k2 gs) @ drop (Suc k1) (take k2 gs)"
    by (rule append_take_drop_id [symmetric])
  then have t3: "take k2 gs = take (Suc k1) gs @ mid"
    unfolding mid_def e .
  have lmid: "length mid = k2 - Suc k1"
    unfolding mid_def using len2 by simp
  have r1: "debounce_run (take (Suc k1) gs) refs_init = s1"
    by (simp add: t1 debounce_run_snoc s1_def s0_def)
  have r2: "debounce_run (take k2 gs) refs_init = s2"
    by (simp add: t3 debounce_run_append r1 s2_def)
  have r3: "debounce_run (take (Suc k2) gs) refs_init = s3"
    by (simp add: t2 debounce_run_snoc r2 s3_def)
  have inv0: "debounce_inv s0"
    unfolding s0_def by (rule debounce_inv_run [OF debounce_inv_init])
  have f1: "isMagicMode s1 \<noteq> isMagicMode s0"
    using assms(2) by (simp add: magic_flip_def r1 s0_def)
  have f2: "isMagicMode s3 \<noteq> isMagicMode s2"
    using assms(3) by (simp add: magic_flip_def r2 r3)
  have c1: "magicModeDebounce s1 = (if isMagicMode s0 then 1 else 7)"
    unfolding s1_def using flip_counter [OF inv0] f1 by (simp add: s1_def)
  have run3: "s3 = debounce_run (mid @ [gs ! k2]) s1"
    by (simp add: debounce_run_snoc s3_def s2_def)
  show ?thesis
  proof (cases "isMagicMode s1")
    case True
    then have c: "7 - int 0 \<le> magicModeDebounce s1" using c1 f1 by simp
    show ?thesis
    proof (cases "isMagicMode s2")
      case True
      then have "\<not> isMagicMode (debounce_run (mid @ [gs ! k2]) s1)"
        using f2 run3 by simp
      from magic_stays [OF \<open>isMagicMode s1\<close> c this] lmid assms(1) show ?thesis by simp
    next
      case False
      then have "\<not> isMagicMode (debounce_run mid s1)" by (simp add: s2_def)
      from magic_stays [OF \<open>isMagicMode s1\<close> c this] lmid assms(1) show ?thesis by simp
    qed
  next
    case False
    then have c: "magicModeDebounce s1 \<le> 1 + int 0" using c1 f1 by simp
    show ?thesis
    proof (cases "isMagicMode s2")
      case False
      then have "isMagicMode (debounce_run (mid @ [gs ! k2]) s1)"
        using f2 run3 by simp
      from magic_stays_off [OF \<open>\<not> isMagicMode s1\<close> c this] lmid assms(1) show ?thesis by simp
    next
      case True
      then have "isMagicMode (debounce_run mid s1)" by (simp add: s2_def)
      from magic_stays_off [OF \<open>\<not> isMagicMode s1\<close> c this] lmid assms(1) show ?thesis by simp
    qed
  qed
qed

text \<open>
  Claim C7. For every sequence of per-frame values of the magic gesture condition, fed to
  the debounce update from the initial state (counter 0, Magic mode off), any two frames
  at which Magic mode is entered or left are at least 4 frames apart. (The thresholds
  7 and 1 over a counter that moves by one per frame even give 6.)
\<close>

theorem magic_transitions_four_apart:
  "k1 < k2 \<Longrightarrow> magic_flip gs k1 \<Longrightarrow> magic_flip gs k2 \<Longrightarrow> k1 + 4 \<le> k2"
  using magic_flip_gap [of k1 k2 gs] by simp

theorem magic_transitions_four_apart_witness:
  "(6::nat) < 12
   \<and> magic_flip (replicate 7 True @ replicate 6 False) 6
   \<and> magic_flip (replicate 7 True @ replicate 6 False) 12
   \<and> (6::nat) + 4 \<le> 12"
proof -
  have a: "(6::nat) < 12" by simp
  have b: "magic_flip (replicate 7 True @ replicate 6 False) 6"
    by (simp add: magic_flip_def debounce_step_def refs_init_def Let_def eval_nat_numeral)
  have c: "magic_flip (replicate 7 True @ replicate 6 False) 12"
    by (simp add: magic_flip_def debounce_step_def refs_init_def Let_def eval_nat_numeral)
  from magic_transitions_four_apart [OF a b c] a b c show ?thesis by simp
qed

section \<open>Smoothed factors stay in range\<close>

lemma debounce_step_factors:
  "handFactor (debounce_step g s) = handFactor s"
  "galaxyTransition (debounce_step g s) = galaxyTransition s"
  "magicTransition (debounce_step g s) = magicTransition s"
  by (simp_all add: debounce_step_def Let_def)

lemma smooth_bounds:
  fixes x t a :: real
  assumes "lo \<le> x" "x \<le> hi" "lo \<le> t" "t \<le> hi" "0 \<le> a" "a \<le> 1"
  shows "lo \<le> x + (t - x) * a" "x + (t - x) * a \<le> hi"
proof -
  have e: "x + (t - x) * a = (1 - a) * x + a * t" by (simp add: algebra_simps)
  have "(1 - a) * lo + a * lo \<le> (1 - a) * x + a * t"
    using assms by (intro add_mono mult_left_mono) simp_all
  then show "lo \<le> x + (t - x) * a" unfolding e by (simp add: algebra_simps)
  have "(1 - a) * x + a * t \<le> (1 - a) * hi + a * hi"
    using assms by (intro add_mono mult_left_mono) simp_all
  then show "x + (t - x) * a \<le> hi" unfolding e by (simp add: algebra_simps)
qed

lemma handFactor_update:
  fixes x t :: real
  assumes "0 \<le> x" "x \<le> 2.5"
  shows "0 \<le> x + (max 0 (min 2.5 t) - x) * 0.2 \<and> x + (max 0 (min 2.5 t) - x) * 0.2 \<le> 2.5"
proof -
  have "0 \<le> max 0 (min 2.5 t)" "max 0 (min 2.5 t) \<le> 2.5" by simp_all
  from smooth_bounds [OF assms this, of "0.2"] show ?thesis by simp
qed

lemma handFactor_decay:
  fixes x :: real
  assumes "0 \<le> x" "x \<le> 2.5"
  shows "0 \<le> x + (0 - x) * 0.05 \<and> x + (0 - x) * 0.05 \<le> 2.5"
  using smooth_bounds [OF assms, of 0 "0.05"] by simp

lemma sensor_step_transitions:
  "galaxyTransition (sensor_step h s) = galaxyTransition s"
  "magicTransition (sensor_step h s) = magicTransition s"
  by (simp_all add: sensor_step_def Let_def debounce_step_factors split: option.splits)

lemma sensor_step_handFactor:
  "handFactor (sensor_step h s) = handFactor s
   \<or> (\<exists>t. handFactor (sensor_step h s) = handFactor s + (max 0 (min 2.5 t) - handFactor s) * 0.2)
   \<or> handFactor (sensor_step h s) = handFactor s + (0 - handFactor s) * 0.05"
proof -
  define s1 where "s1 = debounce_step (rightDist h \<noteq> None \<and> leftPresent h \<and> magicPose h) s"
  have hf1: "handFactor s1 = handFactor s"
    by (simp add: s1_def debounce_step_factors)
  have eq: "handFactor (sensor_step h s) =
      (case rightDist h of
         Some d \<Rightarrow> if \<not> isMagicMode s1
                   then handFactor s1 + (max 0 (min 2.5 ((d - 0.03) * 8.0)) - handFactor s1) * 0.2
                   else handFactor s1
       | None \<Rightarrow> handFactor s1 + (0 - handFactor s1) * 0.05)"
    unfolding sensor_step_def Let_def s1_def [symmetric] by (simp split: option.splits)
  show ?thesis
    unfolding eq hf1 by (cases "rightDist h") auto
qed

lemma sensor_step_inv: "refs_inv s \<Longrightarrow> refs_inv (sensor_step h s)"
  using sensor_step_handFactor [of h s] handFactor_update [of "handFactor s"]
    handFactor_decay [of "handFactor s"]
  unfolding refs_inv_def sensor_step_transitions by metis

lemma transition_step_inv: "refs_inv s \<Longrightarrow> refs_inv (transition_step s)"
proof -
  assume inv: "refs_inv s"
  have g: "\<And>t::real. 0 \<le> t \<Longrightarrow> t \<le> 1 \<Longrightarrow>
      0 \<le> galaxyTransition s + (t - galaxyTransition s) * 0.08 \<and> galaxyTransition s + (t - galaxyTransition s) * 0.08 \<le> 1"
    using smooth_bounds [of 0 "galaxyTransition s" 1 _ "0.08"] inv by (simp add: refs_inv_def)
  have m: "\<And>t::real. 0 \<le> t \<Longrightarrow> t \<le> 1 \<Longrightarrow>
      0 \<le> magicTransition s + (t - magicTransition s) * 0.1 \<and> magicTransition s + (t - magicTransition s) * 0.1 \<le> 1"
    using smooth_bounds [of 0 "magicTransition s" 1 _ "0.1"] inv by (simp add: refs_inv_def)
  show ?thesis
    unfolding transition_step_def Let_def
    using inv g [of 0] g [of 1] m [of 0] m [of 1]
    by (auto simp: refs_inv_def)
qed

lemma frame_step_inv: "refs_inv s \<Longrightarrow> refs_inv (frame_step inp s)"
  by (simp add: frame_step_def transition_step_inv sensor_step_inv split: option.splits)

lemma refs_run_inv: "refs_inv s \<Longrightarrow> refs_inv (refs_run inps s)"
  by (induction inps arbitrary: s) (simp_all add: frame_step_inv)

lemma refs_inv_init: "refs_inv refs_init"
  by (simp add: refs_inv_def refs_init_def)

text \<open>
  Claim C9, as the code has it. For every sequence of animation frames, with or without a
  processed video frame and whatever the hands do, the galaxy and magic transition
  weights stay in \<open>[0, 1]\<close> and the smoothed bloom factor \<open>handFactor\<close> stays in
  \<open>[0, 2.5]\<close>, the range its target is clamped to.
\<close>

theorem factors_bounded:
  "0 \<le> galaxyTransition (refs_run inps refs_init) \<and> galaxyTransition (refs_run inps refs_init) \<le> 1
   \<and> 0 \<le> magicTransition (refs_run inps refs_init) \<and> magicTransition (refs_run inps refs_init) \<le> 1
   \<and> 0 \<le> handFactor (refs_run inps refs_init) \<and> handFactor (refs_run inps refs_init) \<le> 2.5"
  using refs_run_inv [OF refs_inv_init, of inps] by (simp add: refs_inv_def)

text \<open>
  Claim C9 as stated fails: the bloom factor does not stay within about 1.5. Ten video
  frames with an open right hand (thumb to index distance 0.5) bring it to about 2.23.
\<close>

theorem handFactor_exceeds:
  "\<not> handFactor (refs_run (replicate 10 (Some open_hand)) refs_init) \<le> 2"
  by (simp add: eval_nat_numeral frame_step_def sensor_step_def transition_step_def debounce_step_def
      refs_init_def open_hand_def Let_def)

section \<open>Target blend of a steady particle\<close>

lemma steady_target_stages:
  "steady_target e l g m phase amp rnd =
     lerp3 (idle_adjust e phase amp (bloom_adjust e rnd (lerp3 l g (gT e)))) (magic_spin e m) (mT e)"
  by (cases l; cases g; cases m; cases rnd)
     (simp add: steady_target_def lerp3_def idle_adjust_def bloom_adjust_def magic_spin_def
        rotate_xy_def Let_def)

lemma lerp3_one: "lerp3 a b 1 = b"
  by (cases a; cases b) (simp add: lerp3_def)

lemma adjust_inactive:
  "galaxyMode e \<or> 0.1 \<le> mT e \<Longrightarrow> idle_adjust e phase amp (bloom_adjust e rnd t) = t"
  by (cases t; cases rnd) (auto simp: idle_adjust_def bloom_adjust_def)

text \<open>
  Claim C1, as the code has it. The target of a steady particle is computed by successive
  override: the Lotus target is interpolated toward the Galaxy target by \<open>gT\<close>; that
  result, after the bloom scale and jitter and the idle motion (both apply only when
  galaxy mode is off and \<open>mT < 0.1\<close>), is interpolated toward the spin-transformed Magic
  target by \<open>mT\<close>. When galaxy mode is on or \<open>mT \<ge> 0.1\<close> the target is exactly the
  two interpolations in sequence, and with \<open>gT = 1\<close> and \<open>mT = 1\<close> it is exactly the
  spin-transformed Magic target.
\<close>

theorem steady_target_override:
  "steady_target e l g m phase amp rnd =
     lerp3 (idle_adjust e phase amp (bloom_adjust e rnd (lerp3 l g (gT e)))) (magic_spin e m) (mT e)
   \<and> (galaxyMode e \<or> 0.1 \<le> mT e \<longrightarrow>
        steady_target e l g m phase amp rnd = lerp3 (lerp3 l g (gT e)) (magic_spin e m) (mT e))
   \<and> (gT e = 1 \<and> mT e = 1 \<longrightarrow> steady_target e l g m phase amp rnd = magic_spin e m)"
  by (simp add: steady_target_stages adjust_inactive lerp3_one)

lemma magic_spin_still: "timeNow e = 0 \<Longrightarrow> magic_spin e m = m"
  by (cases m) (simp add: magic_spin_def rotate_xy_def Let_def)

theorem steady_target_override_witness:
  "(galaxyMode env_both \<or> 0.1 \<le> mT env_both) \<and> gT env_both = 1 \<and> mT env_both = 1
   \<and> steady_target env_both (1, 0, 0) (0, 2, 0) (0, 0, 3) 0 0 (0.5, 0.5, 0.5) = (0, 0, 3)"
proof -
  have h1: "galaxyMode env_both \<or> 0.1 \<le> mT env_both"
    by (simp add: env_both_def)
  have h2: "gT env_both = 1 \<and> mT env_both = 1"
    by (simp add: env_both_def)
  have t0: "timeNow env_both = 0"
    by (simp add: env_both_def)
  from steady_target_override [of env_both "(1, 0, 0)" "(0, 2, 0)" "(0, 0, 3)" 0 0 "(0.5, 0.5, 0.5)"] h2
  have "steady_target env_both (1, 0, 0) (0, 2, 0) (0, 0, 3) 0 0 (0.5, 0.5, 0.5)
          = magic_spin env_both (0, 0, 3)"
    by blast
  also have "\<dots> = (0, 0, 3)"
    by (rule magic_spin_still [OF t0])
  finally show ?thesis using h1 h2 by blast
qed

text \<open>
  Claim C1 as stated fails: with the bloom open (\<open>bloomFactor = 1\<close>, both weights 0,
  jitter draws at their mean) the target of a particle whose Lotus position is
  \<open>(1, 0, 0)\<close> is \<open>(3, 0, 0)\<close>, not the two interpolations in sequence.
\<close>

theorem steady_target_bloom_counterexample:
  "steady_target env_bloom (1, 0, 0) (0, 2, 0) (0, 0, 3) 0 0 (0.5, 0.5, 0.5)
     \<noteq> lerp3 (lerp3 (1, 0, 0) (0, 2, 0) (gT env_bloom)) (magic_spin env_bloom (0, 0, 3)) (mT env_bloom)"
  by (simp add: steady_target_def lerp3_def magic_spin_def env_bloom_def Let_def)

section \<open>Lotus generator: regions\<close>

lemma pod_loop_eq:
  "pod_loop n p tags = (p + n, \<lambda>i. if p \<le> i \<and> i < p + n then Some Pod else tags i)"
  by (induction n arbitrary: p tags) (auto simp: fun_eq_iff)

lemma petal_loop_eq:
  "p + n \<le> FLOWER_COUNT \<Longrightarrow>
   petal_loop layer n p tags = (p + n, \<lambda>i. if p \<le> i \<and> i < p + n then Some (Petal layer) else tags i)"
  by (induction n arbitrary: p tags) (auto simp: fun_eq_iff)

lemma layer_loop_eq:
  "p + n * ppp \<le> FLOWER_COUNT \<Longrightarrow>
   layer_loop layer ppp n p tags =
     (p + n * ppp, \<lambda>i. if p \<le> i \<and> i < p + n * ppp then Some (Petal layer) else tags i)"
proof (induction n arbitrary: p tags)
  case 0
  then show ?case by (auto simp: fun_eq_iff)
next
  case (Suc n)
  have a: "p + ppp \<le> FLOWER_COUNT" using Suc.prems by simp
  have b: "(p + ppp) + n * ppp \<le> FLOWER_COUNT" using Suc.prems by (simp add: algebra_simps)
  show ?case
    by (simp add: petal_loop_eq [OF a] Suc.IH [OF b]) (auto simp: fun_eq_iff algebra_simps)
qed

lemma background_loop_eq:
  "background_loop n i tags = (\<lambda>j. if i \<le> j \<and> j < i + n then Some Background else tags j)"
  by (induction n arbitrary: i tags) (auto simp: fun_eq_iff)

lemma generateLotus_eq:
  "generateLotus =
     (149991, \<lambda>i. if i < 10000 then Some Pod
                  else if i < 37996 then Some (Petal 0)
                  else if i < 65995 then Some (Petal 1)
                  else if i < 93991 then Some (Petal 2)
                  else if i < 121991 then Some (Petal 3)
                  else if i < 149991 then Some (Petal 4)
                  else if i < 180000 then Some Background
                  else None)"
  unfolding generateLotus_def podCount_def layers_def pod_loop_eq
  by (simp add: layer_loop_eq background_loop_eq FLOWER_COUNT_def PARTICLE_COUNT_def BG_COUNT_def
      fun_eq_iff)

text \<open>
  Claim C8, as the code has it. The pod and the five petal layers take
  \<open>10000 + 27996 + 27999 + 27996 + 28000 + 28000 = 149991\<close> indices (each petal gets the
  rounded-down share of its layer); the background loop starts at the index where the
  petals stopped, so the nine remaining indices below \<open>FLOWER_COUNT\<close> go to the
  background region together with the background range, and every index below
  \<open>PARTICLE_COUNT\<close> belongs to exactly one region.
\<close>

theorem lotus_regions:
  "fst generateLotus = 10000 + 27996 + 27999 + 27996 + 28000 + 28000
   \<and> snd generateLotus i =
       (if i < 10000 then Some Pod
        else if i < 37996 then Some (Petal 0)
        else if i < 65995 then Some (Petal 1)
        else if i < 93991 then Some (Petal 2)
        else if i < 121991 then Some (Petal 3)
        else if i < 149991 then Some (Petal 4)
        else if i < PARTICLE_COUNT then Some Background
        else None)"
  by (simp add: generateLotus_eq PARTICLE_COUNT_def FLOWER_COUNT_def BG_COUNT_def)

text \<open>
  Claim C8 as stated fails: the pod and petal counts do not sum to \<open>FLOWER_COUNT\<close>, and
  index 149991, below \<open>FLOWER_COUNT\<close>, is written by the background loop.
\<close>

theorem lotus_remainder_counterexample:
  "fst generateLotus \<noteq> FLOWER_COUNT
   \<and> 149991 < FLOWER_COUNT \<and> snd generateLotus 149991 = Some Background"
  by (simp add: generateLotus_eq FLOWER_COUNT_def)

section \<open>Pointer ray parallel to the plane\<close>

lemma parallel_no_hit:
  assumes "dot3 (normal planeRef) (direction r) = 0"
    and "dot3 (normal planeRef) (origin r) + planeConstant planeRef \<noteq> 0"
  shows "intersectPlane r planeRef = None"
  using assms by (simp add: intersectPlane_def distanceToPlane_def)

text \<open>
  Claim C10. When the pointer ray is parallel to the plane \<open>Z = 0\<close> and does not lie in
  it, there is no intersection: the hover world point keeps the value it held, and a
  click passes the fresh vector \<open>(0, 0, 0)\<close> to \<open>spawnFirework\<close>; neither is the result
  of the division by the vanishing denominator.
\<close>

theorem parallel_ray_holds_point:
  assumes "dot3 (normal planeRef) (direction r) = 0"
    and "dot3 (normal planeRef) (origin r) + planeConstant planeRef \<noteq> 0"
  shows "update_mouseWorldPos r mouseWorldPos = mouseWorldPos
    \<and> click_target (Some r) = Some (0, 0, 0)
    \<and> handleClick (Some r) now baseColor rnd st = spawnFirework (0, 0, 0) now baseColor rnd st"
  by (simp add: update_mouseWorldPos_def click_target_def handleClick_def parallel_no_hit [OF assms])

theorem parallel_ray_holds_point_witness:
  "dot3 (normal planeRef) (direction ray_parallel) = 0
   \<and> dot3 (normal planeRef) (origin ray_parallel) + planeConstant planeRef \<noteq> 0
   \<and> update_mouseWorldPos ray_parallel (9999, 9999, 9999) = (9999, 9999, 9999)
   \<and> click_target (Some ray_parallel) = Some (0, 0, 0)"
proof -
  have a: "dot3 (normal planeRef) (direction ray_parallel) = 0"
    by (simp add: dot3_def planeRef_def ray_parallel_def)
  have b: "dot3 (normal planeRef) (origin ray_parallel) + planeConstant planeRef \<noteq> 0"
    by (simp add: dot3_def planeRef_def ray_parallel_def)
  from parallel_ray_holds_point [OF a b] a b show ?thesis by blast
qed

section \<open>Slot allocator and spawn\<close>

lemma ring_size: "PARTICLE_COUNT - FIREWORK_PARTICLES_START = 30000"
  by (simp add: PARTICLE_COUNT_def FIREWORK_PARTICLES_START_def FLOWER_COUNT_def BG_COUNT_def)

lemma ring_index_range:
  "FIREWORK_PARTICLES_START \<le> ring_index m" "ring_index m < PARTICLE_COUNT"
proof -
  show "FIREWORK_PARTICLES_START \<le> ring_index m" by (simp add: ring_index_def)
  have "m mod (PARTICLE_COUNT - FIREWORK_PARTICLES_START) < PARTICLE_COUNT - FIREWORK_PARTICLES_START"
    by (simp add: ring_size)
  then show "ring_index m < PARTICLE_COUNT" by (simp add: ring_index_def)
qed

lemma ring_index_mod:
  "ring_index (x mod (PARTICLE_COUNT - FIREWORK_PARTICLES_START) + m) = ring_index (x + m)"
  by (simp add: ring_index_def mod_add_left_eq)

lemma ring_index_self:
  "FIREWORK_PARTICLES_START \<le> ptr \<Longrightarrow> ptr < PARTICLE_COUNT
     \<Longrightarrow> ring_index (ptr - FIREWORK_PARTICLES_START) = ptr"
  by (simp add: ring_index_def)

lemma ring_index_offset:
  "ring_index m - FIREWORK_PARTICLES_START = m mod (PARTICLE_COUNT - FIREWORK_PARTICLES_START)"
  by (simp add: ring_index_def)

lemma ring_index_next:
  assumes "FIREWORK_PARTICLES_START \<le> ptr" "ptr < PARTICLE_COUNT"
  shows "(if ptr + 1 \<ge> PARTICLE_COUNT then FIREWORK_PARTICLES_START else ptr + 1)
           = ring_index (ptr - FIREWORK_PARTICLES_START + 1)"
proof (cases "ptr + 1 \<ge> PARTICLE_COUNT")
  case True
  with assms have "ptr - FIREWORK_PARTICLES_START + 1 = PARTICLE_COUNT - FIREWORK_PARTICLES_START"
    by simp
  then show ?thesis using True by (simp add: ring_index_def)
next
  case False
  with assms have "ptr - FIREWORK_PARTICLES_START + 1 < PARTICLE_COUNT - FIREWORK_PARTICLES_START"
    by simp
  then show ?thesis using False assms by (simp add: ring_index_def)
qed

lemma alloc_loop_ring:
  "FIREWORK_PARTICLES_START \<le> ptr \<Longrightarrow> ptr < PARTICLE_COUNT \<Longrightarrow>
   alloc_loop n ptr =
     (map (\<lambda>m. ring_index (ptr - FIREWORK_PARTICLES_START + m)) [0 ..< n],
      ring_index (ptr - FIREWORK_PARTICLES_START + n))"
proof (induction n arbitrary: ptr)
  case 0
  then show ?case by (simp add: ring_index_self)
next
  case (Suc n)
  let ?p = "ring_index (ptr - FIREWORK_PARTICLES_START + 1)"
  have nx: "(if ptr + 1 \<ge> PARTICLE_COUNT then FIREWORK_PARTICLES_START else ptr + 1) = ?p"
    by (rule ring_index_next [OF Suc.prems])
  have ih: "alloc_loop n ?p =
     (map (\<lambda>m. ring_index (?p - FIREWORK_PARTICLES_START + m)) [0 ..< n],
      ring_index (?p - FIREWORK_PARTICLES_START + n))"
    by (rule Suc.IH) (rule ring_index_range)+
  have sh: "\<And>m. ring_index (?p - FIREWORK_PARTICLES_START + m)
              = ring_index (ptr - FIREWORK_PARTICLES_START + Suc m)"
    by (simp add: ring_index_offset ring_index_mod)
  have "alloc_loop (Suc n) ptr = (ptr # fst (alloc_loop n ?p), snd (alloc_loop n ?p))"
    by (simp only: alloc_loop.simps nx Let_def split_beta)
  also have "\<dots> = (ptr # map (\<lambda>m. ring_index (ptr - FIREWORK_PARTICLES_START + Suc m)) [0 ..< n],
      ring_index (ptr - FIREWORK_PARTICLES_START + Suc n))"
    by (simp only: ih fst_conv snd_conv sh)
  also have "ptr # map (\<lambda>m. ring_index (ptr - FIREWORK_PARTICLES_START + Suc m)) [0 ..< n]
      = map (\<lambda>m. ring_index (ptr - FIREWORK_PARTICLES_START + m)) [0 ..< Suc n]"
  proof -
    have "map (\<lambda>m. ring_index (ptr - FIREWORK_PARTICLES_START + m)) [0 ..< Suc n]
        = ring_index (ptr - FIREWORK_PARTICLES_START + 0)
          # map (\<lambda>m. ring_index (ptr - FIREWORK_PARTICLES_START + m)) (map Suc [0 ..< n])"
      by (simp only: upt_conv_Cons [of 0 "Suc n"] map_Suc_upt list.map zero_less_Suc)
    then show ?thesis
      using ring_index_self [OF Suc.prems] by (simp add: o_def)
  qed
  finally show ?case .
qed

lemma ring_index_inj:
  assumes "ring_index x = ring_index y" "x \<le> y" "y - x < PARTICLE_COUNT - FIREWORK_PARTICLES_START"
  shows "x = y"
proof -
  let ?R = "PARTICLE_COUNT - FIREWORK_PARTICLES_START"
  from assms(1) have "y mod ?R = x mod ?R" by (simp add: ring_index_def)
  with assms(2) have "?R dvd y - x" by (simp add: mod_eq_dvd_iff_nat)
  with assms(3) have "y - x = 0" by (meson dvd_imp_le not_less zero_less_iff_neq_zero neq0_conv)
  with assms(2) show ?thesis by simp
qed

lemma ring_segment_distinct:
  assumes "n \<le> PARTICLE_COUNT - FIREWORK_PARTICLES_START"
  shows "distinct (map (\<lambda>m. ring_index (a + m)) [0 ..< n])"
proof -
  have "inj_on (\<lambda>m. ring_index (a + m)) (set [0 ..< n])"
  proof (rule inj_onI)
    fix x y assume xy: "x \<in> set [0 ..< n]" "y \<in> set [0 ..< n]"
      and eq: "ring_index (a + x) = ring_index (a + y)"
    show "x = y"
    proof (cases "x \<le> y")
      case True
      with xy assms have "a + y - (a + x) < PARTICLE_COUNT - FIREWORK_PARTICLES_START" by simp
      from ring_index_inj [OF eq _ this] True show ?thesis by simp
    next
      case False
      with xy assms have "a + x - (a + y) < PARTICLE_COUNT - FIREWORK_PARTICLES_START" by simp
      from ring_index_inj [OF eq [symmetric] _ this] False show ?thesis by simp
    qed
  qed
  then show ?thesis by (simp add: distinct_map)
qed

lemma take_trail_eq:
  "p + t \<le> length indices \<Longrightarrow> take_trail t indices p = (take t (drop p indices), p + t)"
proof (induction t arbitrary: p)
  case 0
  then show ?case by simp
next
  case (Suc t)
  then have lt: "p < length indices" and nx: "(p + 1) + t \<le> length indices" by simp_all
  have "drop p indices = indices ! p # drop (Suc p) indices"
    using lt by (simp add: Cons_nth_drop_Suc)
  then show ?case using lt Suc.IH [OF nx] by simp
qed

lemma spawn_loop_sparks:
  "p + n * (1 + TRAIL_LEN) \<le> length indices \<Longrightarrow>
   concat (map spark_indices (fst (spawn_loop n k indices p position rnd b)))
     = take (n * (1 + TRAIL_LEN)) (drop p indices)
   \<and> length (fst (spawn_loop n k indices p position rnd b)) = n
   \<and> (\<forall>sp \<in> set (fst (spawn_loop n k indices p position rnd b)). length (trailIndices sp) = TRAIL_LEN)"
proof (induction n arbitrary: p k b)
  case 0
  then show ?case by simp
next
  case (Suc n)
  then have lt: "p < length indices" and tr: "(p + 1) + TRAIL_LEN \<le> length indices"
    and nx: "(p + 1 + TRAIL_LEN) + n * (1 + TRAIL_LEN) \<le> length indices"
    by (simp_all add: algebra_simps)
  have tt: "take_trail TRAIL_LEN indices (p + 1) = (take TRAIL_LEN (drop (p + 1) indices), p + 1 + TRAIL_LEN)"
    by (rule take_trail_eq [OF tr])
  let ?sp = "\<lparr> headIdx = indices ! p, trailIndices = take TRAIL_LEN (drop (p + 1) indices) \<rparr>"
  let ?rest = "spawn_loop n (k + 1) indices (p + 1 + TRAIL_LEN) position rnd (init_spark position (rnd k) ?sp b)"
  have step: "fst (spawn_loop (Suc n) k indices p position rnd b) = ?sp # fst ?rest"
    using lt by (simp only: spawn_loop.simps tt Let_def split_beta fst_conv snd_conv) simp
  have d: "drop p indices = indices ! p # drop (Suc p) indices"
    using lt by (simp add: Cons_nth_drop_Suc)
  have "Suc n * (1 + TRAIL_LEN) = Suc (TRAIL_LEN + n * (1 + TRAIL_LEN))"
    by simp
  then have "take (Suc n * (1 + TRAIL_LEN)) (drop p indices)
      = indices ! p # take (TRAIL_LEN + n * (1 + TRAIL_LEN)) (drop (Suc p) indices)"
    by (simp only: d take_Suc_Cons)
  also have "take (TRAIL_LEN + n * (1 + TRAIL_LEN)) (drop (Suc p) indices)
      = take TRAIL_LEN (drop (Suc p) indices)
        @ take (n * (1 + TRAIL_LEN)) (drop (p + 1 + TRAIL_LEN) indices)"
    by (simp add: take_add add.commute)
  finally have tk: "take (Suc n * (1 + TRAIL_LEN)) (drop p indices)
      = indices ! p # take TRAIL_LEN (drop (Suc p) indices)
        @ take (n * (1 + TRAIL_LEN)) (drop (p + 1 + TRAIL_LEN) indices)" .
  have len: "length (take TRAIL_LEN (drop (p + 1) indices)) = TRAIL_LEN"
    using tr by simp
  from Suc.IH [OF nx, of "k + 1" "init_spark position (rnd k) ?sp b"] len
  show ?case
    unfolding step tk by (simp add: spark_indices_def)
qed

lemma spawnFirework_fst:
  "fst (spawnFirework position now baseColor rnd (bs, b)) =
     bs\<lparr> fireworkCursor := snd (allocateParticles (fireworkCursor bs) (SPARK_CNT * (1 + TRAIL_LEN))),
         fireworks := fireworks bs @
           [\<lparr> fwId = now, age = 0, color = baseColor,
              sparks = fst (spawn_loop SPARK_CNT 0
                 (fst (allocateParticles (fireworkCursor bs) (SPARK_CNT * (1 + TRAIL_LEN)))) 0 position rnd b) \<rparr>] \<rparr>"
  by (simp add: spawnFirework_def split_beta Let_def)

lemma allocate_length: "length (fst (allocateParticles c n)) = n"
  unfolding allocateParticles_def by (induction n arbitrary: c) (simp_all add: split_beta Let_def)

lemma spawned_indices:
  "firework_indices (newest (spawnFirework position now baseColor rnd (bs, b)))
     = fst (allocateParticles (fireworkCursor bs) (SPARK_CNT * (1 + TRAIL_LEN)))"
proof -
  let ?idx = "fst (allocateParticles (fireworkCursor bs) (SPARK_CNT * (1 + TRAIL_LEN)))"
  have "0 + SPARK_CNT * (1 + TRAIL_LEN) \<le> length ?idx" by (simp add: allocate_length)
  from spawn_loop_sparks [OF this, of 0 position rnd b]
  have "concat (map spark_indices (fst (spawn_loop SPARK_CNT 0 ?idx 0 position rnd b))) = ?idx"
    by (simp add: allocate_length)
  then show ?thesis
    by (simp add: newest_def spawnFirework_fst firework_indices_def)
qed

lemma spawned_sparks:
  "length (sparks (newest (spawnFirework position now baseColor rnd (bs, b)))) = SPARK_CNT
   \<and> (\<forall>sp \<in> set (sparks (newest (spawnFirework position now baseColor rnd (bs, b)))).
         length (trailIndices sp) = TRAIL_LEN)"
proof -
  let ?idx = "fst (allocateParticles (fireworkCursor bs) (SPARK_CNT * (1 + TRAIL_LEN)))"
  have "0 + SPARK_CNT * (1 + TRAIL_LEN) \<le> length ?idx" by (simp add: allocate_length)
  from spawn_loop_sparks [OF this, of 0 position rnd b]
  show ?thesis
    by (simp add: newest_def spawnFirework_fst)
qed

lemma spawn_allocation:
  assumes "FIREWORK_PARTICLES_START \<le> fireworkCursor bs" "fireworkCursor bs < PARTICLE_COUNT"
  shows "fireworks (fst (spawnFirework position now baseColor rnd (bs, b)))
           = fireworks bs @ [newest (spawnFirework position now baseColor rnd (bs, b))]
    \<and> firework_indices (newest (spawnFirework position now baseColor rnd (bs, b)))
           = fst (allocateParticles (fireworkCursor bs) (SPARK_CNT * (1 + TRAIL_LEN)))
    \<and> length (sparks (newest (spawnFirework position now baseColor rnd (bs, b)))) = SPARK_CNT
    \<and> (\<forall>sp \<in> set (sparks (newest (spawnFirework position now baseColor rnd (bs, b)))).
          length (trailIndices sp) = TRAIL_LEN)
    \<and> length (firework_indices (newest (spawnFirework position now baseColor rnd (bs, b)))) = 650
    \<and> distinct (firework_indices (newest (spawnFirework position now baseColor rnd (bs, b))))
    \<and> (\<forall>i \<in> set (firework_indices (newest (spawnFirework position now baseColor rnd (bs, b)))).
          FIREWORK_PARTICLES_START \<le> i \<and> i < PARTICLE_COUNT \<and> \<not> i < FLOWER_COUNT)
    \<and> fireworkCursor (fst (spawnFirework position now baseColor rnd (bs, b)))
           = FIREWORK_PARTICLES_START
             + (fireworkCursor bs - FIREWORK_PARTICLES_START + 650)
                 mod (PARTICLE_COUNT - FIREWORK_PARTICLES_START)
    \<and> FIREWORK_PARTICLES_START \<le> fireworkCursor (fst (spawnFirework position now baseColor rnd (bs, b)))
    \<and> fireworkCursor (fst (spawnFirework position now baseColor rnd (bs, b))) < PARTICLE_COUNT"
proof -
  let ?st = "spawnFirework position now baseColor rnd (bs, b)"
  have n: "SPARK_CNT * (1 + TRAIL_LEN) = 650" by (simp add: SPARK_CNT_def TRAIL_LEN_def)
  have al: "allocateParticles (fireworkCursor bs) 650 =
     (map (\<lambda>m. ring_index (fireworkCursor bs - FIREWORK_PARTICLES_START + m)) [0 ..< 650],
      ring_index (fireworkCursor bs - FIREWORK_PARTICLES_START + 650))"
    unfolding allocateParticles_def by (rule alloc_loop_ring [OF assms])
  have idx: "firework_indices (newest ?st)
      = map (\<lambda>m. ring_index (fireworkCursor bs - FIREWORK_PARTICLES_START + m)) [0 ..< 650]"
    by (simp only: spawned_indices n al fst_conv)
  have c1: "fireworks (fst ?st) = fireworks bs @ [newest ?st]"
    by (simp add: newest_def spawnFirework_fst)
  have c2: "firework_indices (newest ?st) = fst (allocateParticles (fireworkCursor bs) (SPARK_CNT * (1 + TRAIL_LEN)))"
    by (rule spawned_indices)
  have c3: "length (firework_indices (newest ?st)) = 650"
    by (simp add: idx)
  have c4: "distinct (firework_indices (newest ?st))"
    unfolding idx by (rule ring_segment_distinct) (simp add: ring_size)
  have c5: "\<forall>i \<in> set (firework_indices (newest ?st)).
          FIREWORK_PARTICLES_START \<le> i \<and> i < PARTICLE_COUNT \<and> \<not> i < FLOWER_COUNT"
  proof
    fix i assume "i \<in> set (firework_indices (newest ?st))"
    then obtain m where i: "i = ring_index m" unfolding idx by auto
    have "FLOWER_COUNT \<le> ring_index m"
      using ring_index_range(1) [of m] by (simp add: FIREWORK_PARTICLES_START_def)
    then show "FIREWORK_PARTICLES_START \<le> i \<and> i < PARTICLE_COUNT \<and> \<not> i < FLOWER_COUNT"
      unfolding i using ring_index_range [of m] by simp
  qed
  have cur: "fireworkCursor (fst ?st) = ring_index (fireworkCursor bs - FIREWORK_PARTICLES_START + 650)"
    by (simp only: spawnFirework_fst n al snd_conv) simp
  have c6: "fireworkCursor (fst ?st) = FIREWORK_PARTICLES_START
             + (fireworkCursor bs - FIREWORK_PARTICLES_START + 650)
                 mod (PARTICLE_COUNT - FIREWORK_PARTICLES_START)"
    unfolding cur by (simp add: ring_index_def)
  have c7: "FIREWORK_PARTICLES_START \<le> fireworkCursor (fst ?st)" "fireworkCursor (fst ?st) < PARTICLE_COUNT"
    unfolding cur by (rule ring_index_range)+
  note c8 = spawned_sparks [of position now baseColor rnd bs b]
  from c1 c2 c3 c4 c5 c6 c7 c8 show ?thesis by blast
qed

section \<open>Firework update of one spark\<close>

lemma cell_neq:
  "i \<noteq> j \<Longrightarrow> i * 3 \<noteq> j * (3::nat)" "i * 3 \<noteq> j * 3 + (1::nat)" "i * 3 \<noteq> j * 3 + (2::nat)"
  "i * 3 + 1 \<noteq> j * (3::nat)" "i \<noteq> j \<Longrightarrow> i * 3 + 1 \<noteq> j * 3 + (1::nat)" "i * 3 + 1 \<noteq> j * 3 + (2::nat)"
  "i * 3 + 2 \<noteq> j * (3::nat)" "i * 3 + 2 \<noteq> j * 3 + (1::nat)" "i \<noteq> j \<Longrightarrow> i * 3 + 2 \<noteq> j * 3 + (2::nat)"
  by presburger+

lemma vec_at_set3: "vec_at (set3 f i v) j = (if j = i then v else vec_at f j)"
  by (cases v) (auto simp: vec_at_def set3_def cell_neq)

lemma shift3:
  fixes c :: "nat \<Rightarrow> real" and a p :: nat
  defines "c1 \<equiv> c(a * 3 := c (p * 3))"
  defines "c2 \<equiv> c1(a * 3 + 1 := c1 (p * 3 + 1))"
  shows "c2(a * 3 + 2 := c2 (p * 3 + 2)) = set3 c a (vec_at c p)"
proof -
  have n1: "p * 3 + 1 \<noteq> a * 3" by presburger
  have n2: "p * 3 + 2 \<noteq> a * 3" "p * 3 + 2 \<noteq> a * 3 + 1" by presburger+
  have r1: "c1 (p * 3 + 1) = c (p * 3 + 1)"
    using n1 by (simp add: c1_def)
  have r2: "c2 (p * 3 + 2) = c (p * 3 + 2)"
    using n2 by (simp add: c2_def c1_def)
  show ?thesis
    unfolding r2 unfolding c2_def r1 unfolding c1_def
    by (simp only: set3_def vec_at_def prod.case)
qed

lemma trail_shift_step:
  "trail_shift lifeRatio col tr (Suc n) (c, k) =
     trail_shift lifeRatio col tr n
       (set3 c (tr ! Suc n) (vec_at c (tr ! n)),
        set3 k (tr ! Suc n) (scale3 col (lifeRatio * (1 - real (Suc n) / real (length tr)) * 0.8)))"
proof (cases col)
  case (fields cr cg cb)
  show ?thesis
    unfolding fields
    by (simp only: trail_shift.simps prod.case Let_def diff_Suc_1 shift3 set3_def scale3_def)
qed

lemma trail_shift_frame:
  "n < length tr \<Longrightarrow> j \<notin> set tr \<Longrightarrow>
   vec_at (fst (trail_shift lifeRatio col tr n (c, k))) j = vec_at c j
   \<and> vec_at (snd (trail_shift lifeRatio col tr n (c, k))) j = vec_at k j"
proof (induction n arbitrary: c k)
  case 0
  then show ?case by simp
next
  case (Suc n)
  then have "j \<noteq> tr ! Suc n" by (metis nth_mem)
  with Suc show ?case
    by (simp only: trail_shift_step) (simp add: vec_at_set3)
qed

lemma trail_shift_other:
  "n < length tr \<Longrightarrow> distinct tr \<Longrightarrow> n < m \<Longrightarrow> m < length tr \<Longrightarrow>
   vec_at (fst (trail_shift lifeRatio col tr n (c, k))) (tr ! m) = vec_at c (tr ! m)
   \<and> vec_at (snd (trail_shift lifeRatio col tr n (c, k))) (tr ! m) = vec_at k (tr ! m)"
proof (induction n arbitrary: c k)
  case 0
  then show ?case by simp
next
  case (Suc n)
  then have "tr ! m \<noteq> tr ! Suc n" by (simp add: nth_eq_iff_index_eq)
  with Suc show ?case
    by (simp only: trail_shift_step) (simp add: vec_at_set3)
qed

lemma trail_shift_low:
  "n < length tr \<Longrightarrow> distinct tr \<Longrightarrow> 0 < length tr \<Longrightarrow>
   vec_at (fst (trail_shift lifeRatio col tr n (c, k))) (tr ! 0) = vec_at c (tr ! 0)"
proof (induction n arbitrary: c k)
  case 0
  then show ?case by simp
next
  case (Suc n)
  then have "tr ! 0 \<noteq> tr ! Suc n" by (simp add: nth_eq_iff_index_eq)
  with Suc show ?case
    by (simp only: trail_shift_step) (simp add: vec_at_set3)
qed

lemma trail_shift_effect:
  "n < length tr \<Longrightarrow> distinct tr \<Longrightarrow> 1 \<le> t \<Longrightarrow> t \<le> n \<Longrightarrow>
   vec_at (fst (trail_shift lifeRatio col tr n (c, k))) (tr ! t) = vec_at c (tr ! (t - 1))
   \<and> vec_at (snd (trail_shift lifeRatio col tr n (c, k))) (tr ! t)
       = scale3 col (lifeRatio * (1 - real t / real (length tr)) * 0.8)"
proof (induction n arbitrary: c k)
  case 0
  then show ?case by simp
next
  case (Suc n)
  let ?c = "set3 c (tr ! Suc n) (vec_at c (tr ! n))"
  let ?k = "set3 k (tr ! Suc n) (scale3 col (lifeRatio * (1 - real (Suc n) / real (length tr)) * 0.8))"
  have n: "n < length tr" using Suc.prems by simp
  show ?case
  proof (cases "t = Suc n")
    case True
    from trail_shift_other [OF n Suc.prems(2) _ Suc.prems(1), of lifeRatio col ?c ?k]
    show ?thesis
      unfolding trail_shift_step True by (simp add: vec_at_set3)
  next
    case False
    with Suc.prems have t: "t \<le> n" by simp
    have "t - 1 < Suc n" using t by simp
    then have "tr ! (t - 1) \<noteq> tr ! Suc n"
      using Suc.prems by (simp add: nth_eq_iff_index_eq)
    with Suc.IH [OF n Suc.prems(2,3) t, of ?c ?k]
    show ?thesis
      unfolding trail_shift_step by (simp add: vec_at_set3)
  qed
qed


lemma set3_seq_drift:
  fixes d :: "nat \<Rightarrow> real" and h :: nat
  defines "d1 \<equiv> d(h * 3 + 1 := d (h * 3 + 1) - 0.004)"
  defines "d2 \<equiv> d1(h * 3 := d1 (h * 3) * 0.96)"
  defines "d3 \<equiv> d2(h * 3 + 1 := d2 (h * 3 + 1) * 0.96)"
  shows "d3(h * 3 + 2 := d3 (h * 3 + 2) * 0.96) = set3 d h (head_velocity (vec_at d h))"
  unfolding d3_def d2_def d1_def
  by (auto simp: set3_def head_velocity_def vec_at_def fun_eq_iff)

lemma set3_seq_curr:
  fixes c v :: "nat \<Rightarrow> real" and h :: nat
  defines "c1 \<equiv> c(h * 3 := c (h * 3) + v (h * 3))"
  defines "c2 \<equiv> c1(h * 3 + 1 := c1 (h * 3 + 1) + v (h * 3 + 1))"
  shows "c2(h * 3 + 2 := c2 (h * 3 + 2) + v (h * 3 + 2)) = set3 c h (add3 (vec_at c h) (vec_at v h))"
  unfolding c2_def c1_def
  by (auto simp: set3_def add3_def vec_at_def fun_eq_iff)

lemma set3_scale:
  "k(i * 3 := cr * s * w, i * 3 + 1 := cg * s * w, i * 3 + 2 := cb * s * w)
     = set3 k i (scale3 (cr, cg, cb) (s * w))"
  by (simp add: set3_def scale3_def mult.assoc)

lemma set3_triple: "f(i * 3 := a, i * 3 + 1 := b, i * 3 + 2 := c) = set3 f i (a, b, c)"
  by (simp add: set3_def)

lemma vec_at_triple: "(f (i * 3), f (i * 3 + 1), f (i * 3 + 2)) = vec_at f i"
  by (simp add: vec_at_def)

lemma update_spark_eq:
  "update_spark fwAge col sp b =
     (let h = headIdx sp;
          tr = trailIndices sp;
          v = head_velocity (vec_at (drifts b) h);
          lifeRatio = max 0 (1 - real fwAge / 90);
          ck = trail_shift lifeRatio col tr (length tr - 1)
                 (set3 (curr b) h (add3 (vec_at (curr b) h) v), set3 (currCol b) h col)
      in b\<lparr> curr := (if length tr > 0 then set3 (fst ck) (tr ! 0) (vec_at (curr b) h) else fst ck),
            drifts := set3 (drifts b) h v,
            currCol := (if length tr > 0 then set3 (snd ck) (tr ! 0) (scale3 col (lifeRatio * 0.9))
                        else snd ck) \<rparr>)"
proof (cases col)
  case (fields cr cg cb)
  have v: "vec_at (set3 (drifts b) (headIdx sp) (head_velocity (vec_at (drifts b) (headIdx sp)))) (headIdx sp)
      = head_velocity (vec_at (drifts b) (headIdx sp))"
    by (simp add: vec_at_set3)
  show ?thesis
    unfolding fields update_spark_def prod.case Let_def
    unfolding set3_seq_drift
    unfolding set3_seq_curr v
    unfolding set3_scale
    unfolding set3_triple vec_at_triple
    by (simp only: split_beta if_distrib [of fst] if_distrib [of snd] fst_conv snd_conv)
qed


lemma update_spark_frame:
  assumes "j \<notin> set (spark_indices sp)"
  shows "vec_at (curr (update_spark fwAge col sp b)) j = vec_at (curr b) j
    \<and> vec_at (drifts (update_spark fwAge col sp b)) j = vec_at (drifts b) j
    \<and> vec_at (currCol (update_spark fwAge col sp b)) j = vec_at (currCol b) j"
proof (cases "0 < length (trailIndices sp)")
  case False
  with assms show ?thesis
    by (simp add: update_spark_eq Let_def vec_at_set3 spark_indices_def)
next
  case True
  let ?tr = "trailIndices sp"
  from assms have jh: "j \<noteq> headIdx sp" and jt: "j \<notin> set ?tr"
    by (simp_all add: spark_indices_def)
  have n: "length ?tr - Suc 0 < length ?tr" using True by simp
  have j0: "j \<noteq> ?tr ! 0" using jt True by (metis nth_mem)
  note fr = trail_shift_frame [OF n jt]
  show ?thesis
    using jh j0 True by (simp add: update_spark_eq Let_def vec_at_set3 fr del: trail_shift.simps)
qed

lemma update_spark_head:
  assumes "distinct (spark_indices sp)"
  shows "vec_at (drifts (update_spark fwAge col sp b)) (headIdx sp)
           = head_velocity (vec_at (drifts b) (headIdx sp))
    \<and> vec_at (curr (update_spark fwAge col sp b)) (headIdx sp)
           = add3 (vec_at (curr b) (headIdx sp)) (head_velocity (vec_at (drifts b) (headIdx sp)))
    \<and> vec_at (currCol (update_spark fwAge col sp b)) (headIdx sp) = col"
proof (cases "0 < length (trailIndices sp)")
  case False
  then show ?thesis
    by (simp add: update_spark_eq Let_def vec_at_set3)
next
  case True
  let ?tr = "trailIndices sp"
  from assms have ht: "headIdx sp \<notin> set ?tr"
    by (simp add: spark_indices_def)
  have n: "length ?tr - Suc 0 < length ?tr" using True by simp
  have h0: "headIdx sp \<noteq> ?tr ! 0" using ht True by (metis nth_mem)
  note fr = trail_shift_frame [OF n ht]
  show ?thesis
    using h0 True by (simp add: update_spark_eq Let_def vec_at_set3 fr del: trail_shift.simps)
qed

lemma update_spark_trail0:
  assumes "distinct (spark_indices sp)" "0 < length (trailIndices sp)"
  shows "vec_at (curr (update_spark fwAge col sp b)) (trailIndices sp ! 0) = vec_at (curr b) (headIdx sp)
    \<and> vec_at (currCol (update_spark fwAge col sp b)) (trailIndices sp ! 0)
         = scale3 col (trail_intensity fwAge (length (trailIndices sp)) 0)"
  using assms by (simp add: update_spark_eq Let_def vec_at_set3 trail_intensity_def del: trail_shift.simps)

lemma update_spark_trail:
  assumes "distinct (spark_indices sp)" "1 \<le> t" "t < length (trailIndices sp)"
  shows "vec_at (curr (update_spark fwAge col sp b)) (trailIndices sp ! t)
           = vec_at (curr b) (trailIndices sp ! (t - 1))
    \<and> vec_at (currCol (update_spark fwAge col sp b)) (trailIndices sp ! t)
         = scale3 col (trail_intensity fwAge (length (trailIndices sp)) t)"
proof -
  let ?tr = "trailIndices sp"
  from assms(1) have d: "distinct ?tr" and ht: "headIdx sp \<notin> set ?tr"
    by (simp_all add: spark_indices_def)
  have n: "length ?tr - Suc 0 < length ?tr" and tn: "t \<le> length ?tr - Suc 0"
    using assms by simp_all
  from assms(3) have "0 < length ?tr" by linarith
  then have t0: "?tr ! t \<noteq> ?tr ! 0"
    using d assms(2,3) by (simp add: nth_eq_iff_index_eq)
  have "t - 1 < length ?tr" using assms by simp
  then have ph: "?tr ! (t - 1) \<noteq> headIdx sp"
    using ht by (metis nth_mem)
  note ef = trail_shift_effect [OF n d assms(2) tn]
  from assms(3) have ne: "?tr \<noteq> []" by auto
  show ?thesis
    using t0 ph assms(2,3) ne
    by (simp add: update_spark_eq Let_def vec_at_set3 ef trail_intensity_def del: trail_shift.simps)
qed

section \<open>Firework update of one frame\<close>

lemma fold_pair:
  "fold (\<lambda>x (b, act). (F x b, G x act)) xs (b, act) = (fold F xs b, fold G xs act)"
  by (induction xs arbitrary: b act) simp_all

lemma update_firework_eq:
  "update_firework fw (b, act) =
     ((fw\<lparr> age := age fw + 1 \<rparr>, age fw + 1 < 90),
      fold (\<lambda>sp. update_spark (age fw + 1) (color fw) sp) (sparks fw) b,
      fold (\<lambda>sp act. insert (headIdx sp) act \<union> set (trailIndices sp)) (sparks fw) act)"
  by (simp add: update_firework_def Let_def fold_pair)

lemma fold_active:
  "fold (\<lambda>sp act. insert (headIdx sp) act \<union> set (trailIndices sp)) sps act
     = act \<union> set (concat (map spark_indices sps))"
  by (induction sps arbitrary: act) (auto simp: spark_indices_def)

lemma run_job_triple: "run_job (a, c, sp) = update_spark a c sp"
  by (rule ext) (simp add: run_job_def)

lemma fireworks_filter_eq:
  "fireworks_filter fws (b, act) =
     (filter (\<lambda>fw. age fw < 90) (map (\<lambda>fw. fw\<lparr> age := age fw + 1 \<rparr>) fws),
      fold run_job (spark_jobs fws) b,
      act \<union> set (concat (map firework_indices fws)))"
proof (induction fws arbitrary: b act)
  case Nil
  then show ?case by (simp add: spark_jobs_def)
next
  case (Cons fw fws)
  have j: "fold run_job (map (\<lambda>sp. (age fw + 1, color fw, sp)) (sparks fw)) b
      = fold (\<lambda>sp. update_spark (age fw + 1) (color fw) sp) (sparks fw) b"
    by (simp add: fold_map o_def run_job_triple)
  have jobs: "spark_jobs (fw # fws) = map (\<lambda>sp. (age fw + 1, color fw, sp)) (sparks fw) @ spark_jobs fws"
    by (simp add: spark_jobs_def)
  have ix: "set (concat (map firework_indices (fw # fws)))
      = set (concat (map spark_indices (sparks fw))) \<union> set (concat (map firework_indices fws))"
    by (simp add: firework_indices_def)
  show ?case
    unfolding fireworks_filter.simps update_firework_eq prod.case Cons.IH jobs fold_append o_apply j
      fold_active ix
    by (simp add: Un_assoc)
qed

lemma jobs_frame:
  "j \<notin> set (concat (map job_indices js)) \<Longrightarrow>
   vec_at (curr (fold run_job js b)) j = vec_at (curr b) j
   \<and> vec_at (drifts (fold run_job js b)) j = vec_at (drifts b) j
   \<and> vec_at (currCol (fold run_job js b)) j = vec_at (currCol b) j"
proof (induction js arbitrary: b)
  case Nil
  then show ?case by simp
next
  case (Cons x js)
  from Cons.prems have 1: "j \<notin> set (spark_indices (snd (snd x)))"
    and 2: "j \<notin> set (concat (map job_indices js))"
    by (simp_all add: job_indices_def)
  from Cons.IH [OF 2, of "run_job x b"] update_spark_frame [OF 1, of "fst x" "fst (snd x)" b]
  show ?case by (simp add: run_job_def)
qed

lemma jobs_indices:
  "concat (map job_indices (spark_jobs fws)) = concat (map firework_indices fws)"
  by (induction fws) (simp_all add: spark_jobs_def firework_indices_def o_def job_indices_def)

lemma jobs_member:
  "fw \<in> set fws \<Longrightarrow> sp \<in> set (sparks fw) \<Longrightarrow> (age fw + 1, color fw, sp) \<in> set (spark_jobs fws)"
  by (auto simp: spark_jobs_def)

text \<open>Around one job of a run with pairwise different indices.\<close>

lemma jobs_split:
  assumes "distinct (concat (map job_indices js))" "x \<in> set js"
  obtains b1 where
    "\<And>j. j \<in> set (job_indices x) \<Longrightarrow>
        vec_at (curr b1) j = vec_at (curr b) j \<and> vec_at (drifts b1) j = vec_at (drifts b) j"
    "\<And>j. j \<in> set (job_indices x) \<Longrightarrow>
        vec_at (curr (fold run_job js b)) j = vec_at (curr (run_job x b1)) j
        \<and> vec_at (drifts (fold run_job js b)) j = vec_at (drifts (run_job x b1)) j
        \<and> vec_at (currCol (fold run_job js b)) j = vec_at (currCol (run_job x b1)) j"
    "distinct (job_indices x)"
proof -
  from assms(2) obtain pre post where js: "js = pre @ x # post"
    by (meson split_list)
  from assms(1) have d: "distinct (job_indices x)"
    and p: "set (concat (map job_indices pre)) \<inter> set (job_indices x) = {}"
    and q: "set (job_indices x) \<inter> set (concat (map job_indices post)) = {}"
    unfolding js by auto
  have fold: "fold run_job js b = fold run_job post (run_job x (fold run_job pre b))"
    by (simp add: js)
  show ?thesis
  proof (rule that [of "fold run_job pre b"])
    fix j assume j: "j \<in> set (job_indices x)"
    with p have "j \<notin> set (concat (map job_indices pre))" by blast
    from jobs_frame [OF this, of b]
    show "vec_at (curr (fold run_job pre b)) j = vec_at (curr b) j
        \<and> vec_at (drifts (fold run_job pre b)) j = vec_at (drifts b) j"
      by simp
  next
    fix j assume j: "j \<in> set (job_indices x)"
    with q have "j \<notin> set (concat (map job_indices post))" by blast
    from jobs_frame [OF this, of "run_job x (fold run_job pre b)"]
    show "vec_at (curr (fold run_job js b)) j = vec_at (curr (run_job x (fold run_job pre b))) j
        \<and> vec_at (drifts (fold run_job js b)) j = vec_at (drifts (run_job x (fold run_job pre b))) j
        \<and> vec_at (currCol (fold run_job js b)) j = vec_at (currCol (run_job x (fold run_job pre b))) j"
      unfolding fold by simp
  next
    show "distinct (job_indices x)" by (rule d)
  qed
qed


lemma trail_intensity_factor:
  "trail_intensity a len t =
     max 0 (1 - real a / 90) * (if t = 0 then 0.9 else (1 - real t / real len) * 0.8)"
  by (simp add: trail_intensity_def)

lemma trail_factor_position:
  assumes "t < t'" "t' < len"
  shows "(if t' = 0 then 0.9 else (1 - real t' / real len) * 0.8)
           < (if t = 0 then 0.9 else (1 - real t / real len) * (0.8::real))"
proof -
  define x where "x = real t / real len"
  define x' where "x' = real t' / real len"
  have len: "0 < real len" using assms by simp
  have 1: "x < x'"
    unfolding x_def x'_def using assms len by (simp add: divide_strict_right_mono)
  have 2: "0 \<le> x" unfolding x_def by simp
  have "(1 - x') * 0.8 < (if t = 0 then 0.9 else (1 - x) * (0.8::real))"
    using 1 2 by (cases "t = 0") simp_all
  moreover have "t' \<noteq> 0" using assms by simp
  ultimately show ?thesis unfolding x_def x'_def by simp
qed

lemma trail_factor_pos:
  assumes "t < len"
  shows "0 < (if t = 0 then 0.9 else (1 - real t / real len) * (0.8::real))"
proof -
  define x where "x = real t / real len"
  have "x < 1" unfolding x_def using assms by simp
  then have "0 < (if t = 0 then 0.9 else (1 - x) * (0.8::real))" by simp
  then show ?thesis unfolding x_def .
qed

lemma trail_intensity_position:
  assumes "t < t'" "t' < len" "a < 90"
  shows "trail_intensity a len t' < trail_intensity a len t"
proof -
  have "0 < max 0 (1 - real a / 90)" using assms(3) by simp
  from mult_strict_left_mono [OF trail_factor_position [OF assms(1,2)] this]
  show ?thesis unfolding trail_intensity_factor .
qed

lemma trail_intensity_age:
  assumes "t < len" "a < a'" "a' \<le> 90"
  shows "trail_intensity a' len t < trail_intensity a len t"
proof -
  have "max 0 (1 - real a' / 90) < max 0 (1 - real a / 90)"
    using assms(2,3) by simp
  from mult_strict_right_mono [OF this trail_factor_pos [OF assms(1)]]
  show ?thesis unfolding trail_intensity_factor .
qed

lemma frame_trail_chain:
  assumes "distinct (concat (map firework_indices fws))" "fw \<in> set fws" "sp \<in> set (sparks fw)"
  shows "(\<forall>t. 1 \<le> t \<and> t < length (trailIndices sp) \<longrightarrow>
            vec_at (curr (fireworks_buffers fws b)) (trailIndices sp ! t)
              = vec_at (curr b) (trailIndices sp ! (t - 1)))
    \<and> (0 < length (trailIndices sp) \<longrightarrow>
            vec_at (curr (fireworks_buffers fws b)) (trailIndices sp ! 0) = vec_at (curr b) (headIdx sp))
    \<and> vec_at (drifts (fireworks_buffers fws b)) (headIdx sp)
          = head_velocity (vec_at (drifts b) (headIdx sp))
    \<and> vec_at (curr (fireworks_buffers fws b)) (headIdx sp)
          = add3 (vec_at (curr b) (headIdx sp)) (head_velocity (vec_at (drifts b) (headIdx sp)))
    \<and> (\<forall>t < length (trailIndices sp).
            vec_at (currCol (fireworks_buffers fws b)) (trailIndices sp ! t)
              = scale3 (color fw) (trail_intensity (age fw + 1) (length (trailIndices sp)) t))
    \<and> (\<forall>t t'. t < t' \<and> t' < length (trailIndices sp) \<and> age fw + 1 < 90 \<longrightarrow>
            trail_intensity (age fw + 1) (length (trailIndices sp)) t'
              < trail_intensity (age fw + 1) (length (trailIndices sp)) t)
    \<and> (\<forall>t a'. t < length (trailIndices sp) \<and> age fw + 1 < a' \<and> a' \<le> 90 \<longrightarrow>
            trail_intensity a' (length (trailIndices sp)) t
              < trail_intensity (age fw + 1) (length (trailIndices sp)) t)"
proof -
  let ?x = "(age fw + 1, color fw, sp)"
  let ?tr = "trailIndices sp"
  have fb: "fireworks_buffers fws b = fold run_job (spark_jobs fws) b"
    by (simp add: fireworks_buffers_def fireworks_filter_eq)
  have dj: "distinct (concat (map job_indices (spark_jobs fws)))"
    using assms(1) by (simp add: jobs_indices)
  have ix: "job_indices ?x = spark_indices sp" by (simp add: job_indices_def)
  have rj: "\<And>b1. run_job ?x b1 = update_spark (age fw + 1) (color fw) sp b1"
    by (simp add: run_job_def)
  from jobs_split [OF dj jobs_member [OF assms(2,3)], of b]
  obtain b1 where
    pre: "\<And>j. j \<in> set (spark_indices sp) \<Longrightarrow>
        vec_at (curr b1) j = vec_at (curr b) j \<and> vec_at (drifts b1) j = vec_at (drifts b) j"
    and post: "\<And>j. j \<in> set (spark_indices sp) \<Longrightarrow>
        vec_at (curr (fireworks_buffers fws b)) j
          = vec_at (curr (update_spark (age fw + 1) (color fw) sp b1)) j
        \<and> vec_at (drifts (fireworks_buffers fws b)) j
          = vec_at (drifts (update_spark (age fw + 1) (color fw) sp b1)) j
        \<and> vec_at (currCol (fireworks_buffers fws b)) j
          = vec_at (currCol (update_spark (age fw + 1) (color fw) sp b1)) j"
    and d: "distinct (spark_indices sp)"
    unfolding ix rj fb by blast
  have hm: "headIdx sp \<in> set (spark_indices sp)"
    by (simp add: spark_indices_def)
  have tm: "\<And>t. t < length ?tr \<Longrightarrow> ?tr ! t \<in> set (spark_indices sp)"
    by (simp add: spark_indices_def)
  have c1: "\<forall>t. 1 \<le> t \<and> t < length ?tr \<longrightarrow>
      vec_at (curr (fireworks_buffers fws b)) (?tr ! t) = vec_at (curr b) (?tr ! (t - 1))"
  proof (intro allI impI)
    fix t assume t: "1 \<le> t \<and> t < length ?tr"
    then have "t - 1 < length ?tr" by linarith
    with post [OF tm, of t] pre [OF tm, of "t - 1"] update_spark_trail [OF d, of t "age fw + 1" "color fw" b1] t
    show "vec_at (curr (fireworks_buffers fws b)) (?tr ! t) = vec_at (curr b) (?tr ! (t - 1))"
      by simp
  qed
  have c2: "0 < length ?tr \<longrightarrow>
      vec_at (curr (fireworks_buffers fws b)) (?tr ! 0) = vec_at (curr b) (headIdx sp)"
    using post [OF tm, of 0] pre [OF hm] update_spark_trail0 [OF d, of "age fw + 1" "color fw" b1]
    by simp
  have c3: "vec_at (drifts (fireworks_buffers fws b)) (headIdx sp)
      = head_velocity (vec_at (drifts b) (headIdx sp))"
    using post [OF hm] pre [OF hm] update_spark_head [OF d, of "age fw + 1" "color fw" b1] by simp
  have c4: "vec_at (curr (fireworks_buffers fws b)) (headIdx sp)
      = add3 (vec_at (curr b) (headIdx sp)) (head_velocity (vec_at (drifts b) (headIdx sp)))"
    using post [OF hm] pre [OF hm] update_spark_head [OF d, of "age fw + 1" "color fw" b1] by simp
  have c5: "\<forall>t < length ?tr. vec_at (currCol (fireworks_buffers fws b)) (?tr ! t)
      = scale3 (color fw) (trail_intensity (age fw + 1) (length ?tr) t)"
  proof (intro allI impI)
    fix t assume t: "t < length ?tr"
    show "vec_at (currCol (fireworks_buffers fws b)) (?tr ! t)
        = scale3 (color fw) (trail_intensity (age fw + 1) (length ?tr) t)"
    proof (cases "t = 0")
      case True
      with t post [OF tm, of 0] update_spark_trail0 [OF d, of "age fw + 1" "color fw" b1]
      show ?thesis by simp
    next
      case False
      with t post [OF tm, of t] update_spark_trail [OF d, of t "age fw + 1" "color fw" b1]
      show ?thesis by simp
    qed
  qed
  have c6: "\<forall>t t'. t < t' \<and> t' < length ?tr \<and> age fw + 1 < 90 \<longrightarrow>
      trail_intensity (age fw + 1) (length ?tr) t' < trail_intensity (age fw + 1) (length ?tr) t"
    using trail_intensity_position by blast
  have c7: "\<forall>t a'. t < length ?tr \<and> age fw + 1 < a' \<and> a' \<le> 90 \<longrightarrow>
      trail_intensity a' (length ?tr) t < trail_intensity (age fw + 1) (length ?tr) t"
    using trail_intensity_age by blast
  from c1 c2 c3 c4 c5 c6 c7 show ?thesis by blast
qed

section \<open>Steady pass and the active set\<close>

lemma steady_particle_writes:
  "\<exists>p c. steady_particle e sh rnd i b = b\<lparr> curr := set3 (curr b) i p, currCol := set3 (currCol b) i c \<rparr>"
proof -
  obtain p c where
    "steady_particle e sh rnd i b =
       b\<lparr> curr := (curr b)(i * 3 := fst p, i * 3 + 1 := fst (snd p), i * 3 + 2 := snd (snd p)),
           currCol := (currCol b)(i * 3 := fst c, i * 3 + 1 := fst (snd c), i * 3 + 2 := snd (snd c)) \<rparr>"
    unfolding steady_particle_def Let_def split_beta
    by metis
  then have "steady_particle e sh rnd i b =
      b\<lparr> curr := set3 (curr b) i p, currCol := set3 (currCol b) i c \<rparr>"
    by (simp add: set3_def split_beta)
  then show ?thesis by blast
qed

lemma steady_particle_frame:
  assumes "j \<noteq> i"
  shows "vec_at (curr (steady_particle e sh rnd i b)) j = vec_at (curr b) j
    \<and> vec_at (currCol (steady_particle e sh rnd i b)) j = vec_at (currCol b) j"
proof -
  from steady_particle_writes [of e sh rnd i b] obtain p c where
    "steady_particle e sh rnd i b = b\<lparr> curr := set3 (curr b) i p, currCol := set3 (currCol b) i c \<rparr>"
    by blast
  with assms show ?thesis by (simp add: vec_at_set3)
qed

lemma steady_loop_skips:
  "j \<in> act \<Longrightarrow>
   vec_at (curr (fold (\<lambda>i b. if i \<in> act then b else steady_particle e sh rnd i b) xs b)) j
     = vec_at (curr b) j
   \<and> vec_at (currCol (fold (\<lambda>i b. if i \<in> act then b else steady_particle e sh rnd i b) xs b)) j
     = vec_at (currCol b) j"
proof (induction xs arbitrary: b)
  case Nil
  then show ?case by simp
next
  case (Cons x xs)
  show ?case
  proof (cases "x \<in> act")
    case True
    with Cons show ?thesis by simp
  next
    case False
    with Cons.prems have "j \<noteq> x" by blast
    from steady_particle_frame [OF this, of e sh rnd b] Cons.IH [OF Cons.prems, of "steady_particle e sh rnd x b"] False
    show ?thesis by simp
  qed
qed

lemma animate_particles_eq:
  "animate_particles e sh rnd (bs, b) =
     (bs\<lparr> fireworks := filter (\<lambda>fw. age fw < 90) (map (\<lambda>fw. fw\<lparr> age := age fw + 1 \<rparr>) (fireworks bs)) \<rparr>,
      steady_pass e sh rnd (set (concat (map firework_indices (fireworks bs))))
        (fireworks_buffers (fireworks bs) b))"
  by (simp add: animate_particles_def fireworks_filter_eq fireworks_buffers_def)

text \<open>
  Claim C2. In every frame the active set built by the firework update holds every head
  and trail index of every firework that was live at the start of the frame; the steady
  pass run with that set leaves the position and colour entries of each such index as
  they were, so after the frame they are the values the firework update wrote.
\<close>

theorem steady_pass_skips_active:
  assumes "fw \<in> set (fireworks bs)" "i \<in> set (firework_indices fw)"
  shows "i \<in> snd (snd (fireworks_filter (fireworks bs) (b, {})))
    \<and> vec_at (curr (steady_pass e sh rnd (snd (snd (fireworks_filter (fireworks bs) (b, {})))) b')) i
         = vec_at (curr b') i
    \<and> vec_at (currCol (steady_pass e sh rnd (snd (snd (fireworks_filter (fireworks bs) (b, {})))) b')) i
         = vec_at (currCol b') i
    \<and> vec_at (curr (snd (animate_particles e sh rnd (bs, b)))) i
         = vec_at (curr (fireworks_buffers (fireworks bs) b)) i
    \<and> vec_at (currCol (snd (animate_particles e sh rnd (bs, b)))) i
         = vec_at (currCol (fireworks_buffers (fireworks bs) b)) i"
proof -
  let ?act = "set (concat (map firework_indices (fireworks bs)))"
  have act: "snd (snd (fireworks_filter (fireworks bs) (b, {}))) = ?act"
    by (simp add: fireworks_filter_eq)
  have m: "i \<in> ?act" using assms by auto
  note sk = steady_loop_skips [OF m, of e sh rnd "[0 ..< PARTICLE_COUNT]", folded steady_pass_def]
  show ?thesis
    unfolding act animate_particles_eq snd_conv using m sk by blast
qed

theorem steady_pass_skips_active_witness:
  "fw_small \<in> set (fireworks burst_small) \<and> 150001 \<in> set (firework_indices fw_small)
   \<and> vec_at (curr (snd (animate_particles env_both shapes_zero (\<lambda>i k. 0) (burst_small, buffers_count)))) 150001
         = vec_at (curr (fireworks_buffers (fireworks burst_small) buffers_count)) 150001"
proof -
  have a: "fw_small \<in> set (fireworks burst_small)" by (simp add: burst_small_def)
  have b: "150001 \<in> set (firework_indices fw_small)"
    by (simp add: firework_indices_def fw_small_def spark_small_def spark_indices_def)
  from steady_pass_skips_active [OF a b, of buffers_count env_both shapes_zero "\<lambda>i k. 0"] a b
  show ?thesis by blast
qed

section \<open>Disjoint fireworks; one lap of the allocator\<close>

lemma disjoint_members:
  assumes "fireworks_disjoint fws" "f \<in> set fws" "g \<in> set fws" "f \<noteq> g"
  shows "set (firework_indices g) \<inter> set (firework_indices f) = {}"
proof -
  from assms(2,3) obtain i j where "i < length fws" "fws ! i = f" "j < length fws" "fws ! j = g"
    by (auto simp: in_set_conv_nth)
  moreover with assms(4) have "j \<noteq> i" by auto
  ultimately show ?thesis using assms(1) unfolding fireworks_disjoint_def by blast
qed

lemma full_lap:
  assumes "FIREWORK_PARTICLES_START \<le> c" "c < PARTICLE_COUNT"
    "FIREWORK_PARTICLES_START \<le> i" "i < PARTICLE_COUNT"
  shows "i \<in> set (fst (allocateParticles c (PARTICLE_COUNT - FIREWORK_PARTICLES_START)))"
proof -
  let ?R = "PARTICLE_COUNT - FIREWORK_PARTICLES_START"
  let ?F = "FIREWORK_PARTICLES_START"
  define m where "m = (i - ?F + (?R - (c - ?F))) mod ?R"
  have R: "0 < ?R" by (simp add: ring_size)
  have mR: "m < ?R" unfolding m_def using R by simp
  have "(c - ?F + m) mod ?R = (c - ?F + (i - ?F + (?R - (c - ?F)))) mod ?R"
    unfolding m_def by (simp add: mod_add_right_eq)
  also have "c - ?F + (i - ?F + (?R - (c - ?F))) = (i - ?F) + ?R"
    using assms by simp
  also have "((i - ?F) + ?R) mod ?R = i - ?F"
  proof -
    have "i - ?F < ?R" using assms by simp
    then show ?thesis by (metis mod_add_self2 mod_less)
  qed
  finally have "ring_index (c - ?F + m) = i"
    using assms by (simp add: ring_index_def)
  moreover have "fst (allocateParticles c ?R) = map (\<lambda>m. ring_index (c - ?F + m)) [0 ..< ?R]"
    by (simp add: allocateParticles_def alloc_loop_ring [OF assms(1,2)])
  ultimately show ?thesis using mR by force
qed

section \<open>Live fireworks and the ring\<close>

lemma slots_per_burst: "SPARK_CNT * (1 + TRAIL_LEN) = 650"
  by (simp add: SPARK_CNT_def TRAIL_LEN_def)

lemma max_bursts: "MAX_BURSTS = 46"
  unfolding MAX_BURSTS_def slots_per_burst ring_size by simp

lemma ring_seg_650: "ring_seg a = map (\<lambda>m. ring_index (a + m)) [0 ..< 650]"
  unfolding ring_seg_def slots_per_burst by (rule refl)

lemma burst_ring_650:
  "burst_ring v bs \<longleftrightarrow>
     fireworkCursor bs = ring_index v
     \<and> 650 * length (fireworks bs) \<le> v
     \<and> map firework_indices (rev (fireworks bs))
         = map (\<lambda>k. ring_seg (v - 650 * (k + 1))) [0 ..< length (fireworks bs)]
     \<and> sorted_wrt (\<lambda>f g. age g \<le> age f) (fireworks bs)"
  unfolding burst_ring_def slots_per_burst by (rule refl)

lemma allocate_ring_seg:
  "allocateParticles (ring_index v) 650 = (ring_seg v, ring_index (v + 650))"
proof -
  have "allocateParticles (ring_index v) 650 =
     (map (\<lambda>m. ring_index (ring_index v - FIREWORK_PARTICLES_START + m)) [0 ..< 650],
      ring_index (ring_index v - FIREWORK_PARTICLES_START + 650))"
    unfolding allocateParticles_def by (rule alloc_loop_ring) (rule ring_index_range)+
  then show ?thesis
    by (simp add: ring_index_offset ring_index_mod ring_seg_650)
qed

lemma firework_indices_age [simp]:
  "firework_indices (fw\<lparr> age := a \<rparr>) = firework_indices fw"
  by (simp add: firework_indices_def)

lemma spawn_ring:
  assumes "burst_ring v bs"
  shows "burst_ring (v + 650) (fst (spawnFirework position now baseColor rnd (bs, b)))"
proof -
  let ?st = "spawnFirework position now baseColor rnd (bs, b)"
  let ?n = "length (fireworks bs)"
  from assms have cur: "fireworkCursor bs = ring_index v"
    and le: "650 * ?n \<le> v"
    and segs: "map firework_indices (rev (fireworks bs))
         = map (\<lambda>k. ring_seg (v - 650 * (k + 1))) [0 ..< ?n]"
    and srt: "sorted_wrt (\<lambda>f g. age g \<le> age f) (fireworks bs)"
    by (simp_all add: burst_ring_650)
  have fws: "fireworks (fst ?st) = fireworks bs @ [newest ?st]"
    by (simp add: newest_def spawnFirework_fst)
  have idx: "firework_indices (newest ?st) = ring_seg v"
    by (simp only: spawned_indices slots_per_burst cur allocate_ring_seg fst_conv)
  have age0: "age (newest ?st) = 0"
    by (simp add: newest_def spawnFirework_fst)
  have c1: "fireworkCursor (fst ?st) = ring_index (v + 650)"
    by (simp only: spawnFirework_fst slots_per_burst cur allocate_ring_seg snd_conv) simp
  have c2: "650 * length (fireworks (fst ?st)) \<le> v + 650"
    using le by (simp add: fws)
  have "map (\<lambda>k. ring_seg (v + 650 - 650 * (k + 1))) [0 ..< Suc ?n]
      = ring_seg (v + 650 - 650 * (0 + 1)) # map (\<lambda>k. ring_seg (v + 650 - 650 * (k + 1))) (map Suc [0 ..< ?n])"
    by (simp only: upt_conv_Cons [of 0 "Suc ?n"] map_Suc_upt list.map zero_less_Suc)
  also have "\<dots> = ring_seg v # map (\<lambda>k. ring_seg (v - 650 * (k + 1))) [0 ..< ?n]"
    by (simp add: o_def)
  finally have c3: "map firework_indices (rev (fireworks (fst ?st)))
      = map (\<lambda>k. ring_seg (v + 650 - 650 * (k + 1))) [0 ..< length (fireworks (fst ?st))]"
    by (simp add: fws idx segs)
  have c4: "sorted_wrt (\<lambda>f g. age g \<le> age f) (fireworks (fst ?st))"
    using srt by (simp add: fws sorted_wrt_append age0)
  from c1 c2 c3 c4 show ?thesis
    by (simp add: burst_ring_650)
qed

lemma filter_sorted_drop:
  "sorted_wrt (\<lambda>f g. age g \<le> age f) xs \<Longrightarrow> \<exists>d. filter (\<lambda>f. age f < N) xs = drop d xs"
proof (induction xs)
  case Nil
  then show ?case by simp
next
  case (Cons x xs)
  show ?case
  proof (cases "age x < N")
    case True
    with Cons.prems have "\<forall>y \<in> set (x # xs). age y < N" by auto
    then have "filter (\<lambda>f. age f < N) (x # xs) = drop 0 (x # xs)" by simp
    then show ?thesis by blast
  next
    case False
    from Cons obtain d where "filter (\<lambda>f. age f < N) xs = drop d xs" by auto
    with False have "filter (\<lambda>f. age f < N) (x # xs) = drop (Suc d) (x # xs)" by simp
    then show ?thesis by blast
  qed
qed

lemma animate_fst:
  "fst (animate_particles e sh rnd st) =
     (fst st)\<lparr> fireworks := filter (\<lambda>fw. age fw < 90)
                              (map (\<lambda>fw. fw\<lparr> age := age fw + 1 \<rparr>) (fireworks (fst st))) \<rparr>"
  by (cases st) (simp add: animate_particles_eq)

lemma animate_fireworks:
  "fireworks (fst (animate_particles e sh rnd st)) =
     filter (\<lambda>f. age f < 90) (map (\<lambda>fw. fw\<lparr> age := age fw + 1 \<rparr>) (fireworks (fst st)))"
  by (simp add: animate_fst)

lemma frame_ring:
  assumes "burst_ring v (fst st)"
  shows "burst_ring v (fst (animate_particles e sh rnd st))"
proof -
  let ?fws = "fireworks (fst st)"
  let ?xs = "map (\<lambda>fw. fw\<lparr> age := age fw + 1 \<rparr>) ?fws"
  let ?n = "length ?fws"
  let ?g = "\<lambda>k. ring_seg (v - 650 * (k + 1))"
  from assms have cur: "fireworkCursor (fst st) = ring_index v"
    and le: "650 * ?n \<le> v"
    and segs: "map firework_indices (rev ?fws) = map ?g [0 ..< ?n]"
    and srt: "sorted_wrt (\<lambda>f g. age g \<le> age f) ?fws"
    by (simp_all add: burst_ring_650)
  have sx: "sorted_wrt (\<lambda>f g. age g \<le> age f) ?xs"
    using srt by (simp add: sorted_wrt_map)
  from filter_sorted_drop [OF sx, of 90] obtain d where
    d: "filter (\<lambda>f. age f < 90) ?xs = drop d ?xs" by blast
  have fws': "fireworks (fst (animate_particles e sh rnd st)) = drop d ?xs"
    unfolding animate_fireworks by (rule d)
  have len: "length (drop d ?xs) = ?n - d" by simp
  have ix: "map firework_indices (rev ?xs) = map ?g [0 ..< ?n]"
    using segs by (simp add: rev_map o_def)
  have "map firework_indices (rev (drop d ?xs)) = take (?n - d) (map firework_indices (rev ?xs))"
    by (simp add: rev_drop take_map)
  also have "\<dots> = map ?g (take (?n - d) [0 ..< ?n])"
    by (simp only: ix take_map)
  also have "take (?n - d) [0 ..< ?n] = [0 ..< ?n - d]"
    by (simp add: take_upt)
  finally have c3: "map firework_indices (rev (drop d ?xs)) = map ?g [0 ..< length (drop d ?xs)]"
    by (simp only: len)
  have c2: "650 * length (drop d ?xs) \<le> v"
    using le by simp
  have c4: "sorted_wrt (\<lambda>f g. age g \<le> age f) (drop d ?xs)"
    using sx by (rule sorted_wrt_drop)
  have c1: "fireworkCursor (fst (animate_particles e sh rnd st)) = ring_index v"
    by (simp add: animate_fst cur)
  from c1 c2 c3 c4 show ?thesis
    unfolding burst_ring_650 fws' by blast
qed

lemma step_ring:
  "burst_ring v (fst st) \<Longrightarrow> \<exists>v'. burst_ring v' (fst (engine_step ev st))"
proof (cases ev)
  case (Spawn position now baseColor rnd)
  assume "burst_ring v (fst st)"
  from spawn_ring [OF this, of position now baseColor rnd "snd st"]
  show ?thesis by (auto simp: Spawn)
next
  case (Frame e sh rnd)
  assume "burst_ring v (fst st)"
  from frame_ring [OF this, of e sh rnd]
  show ?thesis by (auto simp: Frame)
qed

lemma run_ring:
  "burst_ring v (fst st) \<Longrightarrow> \<exists>v'. burst_ring v' (fst (engine_run evs st))"
proof (induction evs arbitrary: st v)
  case Nil
  then show ?case by auto
next
  case (Cons ev evs)
  from step_ring [OF Cons.prems, of ev] obtain v' where "burst_ring v' (fst (engine_step ev st))"
    by blast
  from Cons.IH [OF this] show ?case by simp
qed

lemma step_length:
  "length (fireworks (fst (engine_step ev st)))
     \<le> (if is_spawn ev then length (fireworks (fst st)) + 1 else length (fireworks (fst st)))"
proof (cases ev)
  case (Spawn position now baseColor rnd)
  then show ?thesis by (cases st) (simp add: spawnFirework_fst)
next
  case (Frame e sh rnd)
  then show ?thesis by (simp add: animate_fst)
qed

lemma run_capacity:
  "within_capacity evs st \<Longrightarrow> length (fireworks (fst st)) \<le> MAX_BURSTS
     \<Longrightarrow> length (fireworks (fst (engine_run evs st))) \<le> MAX_BURSTS"
proof (induction evs arbitrary: st)
  case Nil
  then show ?case by simp
next
  case (Cons ev evs)
  from Cons.prems step_length [of ev st]
  have "length (fireworks (fst (engine_step ev st))) \<le> MAX_BURSTS"
    by (auto split: if_splits)
  with Cons.IH [of "engine_step ev st"] Cons.prems show ?case by simp
qed

lemma ring_seg_disjoint:
  assumes "a' + 650 \<le> a" "a - a' \<le> 650 * 45"
  shows "set (ring_seg a') \<inter> set (ring_seg a) = {}"
proof (rule ccontr)
  assume "set (ring_seg a') \<inter> set (ring_seg a) \<noteq> {}"
  then obtain m m' where m: "m < 650" "m' < 650" and eq: "ring_index (a' + m') = ring_index (a + m)"
    by (auto simp: ring_seg_650)
  have lt: "a' + m' < a + m" using assms m by simp
  have "a + m - (a' + m') < PARTICLE_COUNT - FIREWORK_PARTICLES_START"
    using assms m by (simp add: ring_size)
  from ring_index_inj [OF eq _ this] lt show False by simp
qed

lemma ring_nth:
  assumes "burst_ring v bs" "i < length (fireworks bs)"
  shows "firework_indices (fireworks bs ! i) = ring_seg (v - 650 * (length (fireworks bs) - i))"
proof -
  let ?n = "length (fireworks bs)"
  from assms(1) have segs: "map firework_indices (rev (fireworks bs))
         = map (\<lambda>k. ring_seg (v - 650 * (k + 1))) [0 ..< ?n]"
    by (simp add: burst_ring_650)
  have k: "?n - Suc i < ?n" using assms(2) by simp
  have "firework_indices (fireworks bs ! i) = firework_indices (rev (fireworks bs) ! (?n - Suc i))"
    using assms(2) by (simp add: rev_nth)
  also have "\<dots> = map firework_indices (rev (fireworks bs)) ! (?n - Suc i)"
    using k by simp
  also have "\<dots> = ring_seg (v - 650 * ((?n - Suc i) + 1))"
    unfolding segs using k by simp
  also have "(?n - Suc i) + 1 = ?n - i" using assms(2) by simp
  finally show ?thesis .
qed

lemma ring_disjoint:
  assumes "burst_ring v bs" "length (fireworks bs) \<le> 46"
  shows "fireworks_disjoint (fireworks bs)"
  unfolding fireworks_disjoint_def
proof (intro allI impI)
  let ?n = "length (fireworks bs)"
  from assms(1) have le: "650 * ?n \<le> v" by (simp add: burst_ring_650)
  have pair: "set (firework_indices (fireworks bs ! i)) \<inter> set (firework_indices (fireworks bs ! j)) = {}"
    if "i < j" "j < ?n" for i j
  proof -
    from that have i: "i < ?n" by simp
    have 1: "(v - 650 * (?n - i)) + 650 \<le> v - 650 * (?n - j)"
      using that le by simp
    have 2: "(v - 650 * (?n - j)) - (v - 650 * (?n - i)) \<le> 650 * 45"
      using that le assms(2) by simp
    from ring_seg_disjoint [OF 1 2] show ?thesis
      by (simp add: ring_nth [OF assms(1) i] ring_nth [OF assms(1) that(2)])
  qed
  fix i j assume "i < ?n" "j < ?n" "i \<noteq> j"
  then consider "i < j" | "j < i" by linarith
  then show "set (firework_indices (fireworks bs ! i)) \<inter> set (firework_indices (fireworks bs ! j)) = {}"
  proof cases
    case 1
    from pair [OF 1 \<open>j < ?n\<close>] show ?thesis .
  next
    case 2
    from pair [OF 2 \<open>i < ?n\<close>] show ?thesis by blast
  qed
qed

lemma init_ring: "burst_ring 0 burst_init"
  by (simp add: burst_ring_650 burst_init_def ring_index_def)

text \<open>
  Claim C3, as the code has it. In every execution from the initial state in which no
  spawn happens while \<open>MAX_BURSTS = 46\<close> fireworks are alive (46 bursts of 650 slots fit
  into the ring of 30000), any two fireworks alive at the same time hold disjoint sets
  of head and trail indices.
\<close>

theorem live_fireworks_disjoint:
  assumes "within_capacity evs (burst_init, b)"
  shows "fireworks_disjoint (fireworks (fst (engine_run evs (burst_init, b))))"
proof -
  from run_ring [of 0 "(burst_init, b)" evs] init_ring
  obtain v where v: "burst_ring v (fst (engine_run evs (burst_init, b)))" by auto
  have "length (fireworks (fst (burst_init, b))) \<le> MAX_BURSTS"
    by (simp add: burst_init_def)
  from run_capacity [OF assms this]
  have "length (fireworks (fst (engine_run evs (burst_init, b)))) \<le> 46"
    by (simp add: max_bursts)
  from ring_disjoint [OF v this] show ?thesis .
qed


theorem live_fireworks_disjoint_witness:
  "within_capacity click_frame_click (burst_init, buffers_zero)
   \<and> fireworks_disjoint (fireworks (fst (engine_run click_frame_click (burst_init, buffers_zero))))"
proof -
  let ?st0 = "(burst_init, buffers_zero)"
  let ?st1 = "engine_step click ?st0"
  let ?st2 = "engine_step (Frame env_both shapes_zero (\<lambda>i k. 0)) ?st1"
  have s: "is_spawn click" by (simp add: click_def)
  have l0: "length (fireworks (fst ?st0)) = 0" by (simp add: burst_init_def)
  have l1: "length (fireworks (fst ?st1)) \<le> 1"
    using step_length [of click ?st0] s l0 by simp
  have l2: "length (fireworks (fst ?st2)) \<le> 1"
    using step_length [of "Frame env_both shapes_zero (\<lambda>i k. 0)" ?st1] l1 by simp
  have a: "within_capacity click_frame_click ?st0"
    unfolding click_frame_click_def within_capacity.simps
    using s l0 l1 l2 by (simp add: max_bursts)
  from live_fireworks_disjoint [OF a] a show ?thesis by blast
qed

lemma clicks_ring:
  "burst_ring v (fst st) \<Longrightarrow>
   burst_ring (v + 650 * n) (fst (engine_run (replicate n click) st))
   \<and> length (fireworks (fst (engine_run (replicate n click) st))) = length (fireworks (fst st)) + n"
proof (induction n arbitrary: st v)
  case 0
  then show ?case by simp
next
  case (Suc n)
  let ?st' = "engine_step click st"
  have st': "?st' = spawnFirework (0, 0, 0) 0 (1, 1, 1) (\<lambda>k. (0, 0, 0)) (fst st, snd st)"
    by (simp add: click_def)
  have r: "burst_ring (v + 650) (fst ?st')"
    unfolding st' by (rule spawn_ring [OF Suc.prems])
  have l: "length (fireworks (fst ?st')) = length (fireworks (fst st)) + 1"
    unfolding st' spawnFirework_fst by simp
  from Suc.IH [OF r] l show ?case
    by (simp add: algebra_simps)
qed

text \<open>
  Claim C3 as stated fails: the allocator does not look at the live fireworks. After 47
  spawns with no frame in between all 47 fireworks are alive, the cursor has passed a
  full lap, and the first and the last firework both hold index 150000.
\<close>

theorem shared_index_counterexample:
  "\<not> fireworks_disjoint (fireworks (fst (engine_run clicks47 (burst_init, buffers_zero))))"
proof
  let ?bs = "fst (engine_run clicks47 (burst_init, buffers_zero))"
  assume d: "fireworks_disjoint (fireworks ?bs)"
  have "burst_ring 0 (fst (burst_init, buffers_zero))" by (simp add: init_ring)
  from clicks_ring [OF this, of 47]
  have r: "burst_ring 30550 ?bs" and l: "length (fireworks ?bs) = 47"
    by (simp_all add: clicks47_def burst_init_def)
  have i0: "firework_indices (fireworks ?bs ! 0) = ring_seg 0"
    using ring_nth [OF r, of 0] l by simp
  have i46: "firework_indices (fireworks ?bs ! 46) = ring_seg 29900"
    using ring_nth [OF r, of 46] l by simp
  have "(\<lambda>m. ring_index (0 + m)) 0 \<in> (\<lambda>m. ring_index (0 + m)) ` set [0 ..< 650]"
    by (rule imageI) simp
  then have m0: "150000 \<in> set (ring_seg 0)"
    by (simp add: ring_seg_650 ring_index_def FIREWORK_PARTICLES_START_def FLOWER_COUNT_def)
  have "(\<lambda>m. ring_index (29900 + m)) 100 \<in> (\<lambda>m. ring_index (29900 + m)) ` set [0 ..< 650]"
    by (rule imageI) simp
  moreover have "ring_index (29900 + 100) = 150000"
    by (simp add: ring_index_def PARTICLE_COUNT_def FIREWORK_PARTICLES_START_def FLOWER_COUNT_def
        BG_COUNT_def)
  ultimately have m46: "150000 \<in> set (ring_seg 29900)"
    by (simp add: ring_seg_650)
  from d l have "set (firework_indices (fireworks ?bs ! 0)) \<inter> set (firework_indices (fireworks ?bs ! 46)) = {}"
    unfolding fireworks_disjoint_def by simp
  with m0 m46 show False unfolding i0 i46 by blast
qed

section \<open>Every execution: the ring invariant and spawn\<close>

lemma reachable_ring: "\<exists>v. burst_ring v (fst (engine_run evs (burst_init, b0)))"
  using run_ring [of 0 "(burst_init, b0)" evs] init_ring by simp

lemma ring_cursor_range:
  assumes "burst_ring v bs"
  shows "FIREWORK_PARTICLES_START \<le> fireworkCursor bs" "fireworkCursor bs < PARTICLE_COUNT"
  using assms ring_index_range [of v] by (simp_all add: burst_ring_650)

lemma ring_firework_distinct:
  assumes "burst_ring v bs" "fw \<in> set (fireworks bs)"
  shows "distinct (firework_indices fw)"
proof -
  from assms(2) obtain i where i: "i < length (fireworks bs)" "fireworks bs ! i = fw"
    by (auto simp: in_set_conv_nth)
  have "distinct (ring_seg (v - 650 * (length (fireworks bs) - i)))"
    unfolding ring_seg_650 by (rule ring_segment_distinct) (simp add: ring_size)
  with ring_nth [OF assms(1) i(1)] i(2) show ?thesis by simp
qed

lemma distinct_concat_member:
  "distinct (concat xs) \<Longrightarrow> ys \<in> set xs \<Longrightarrow> distinct ys"
  by (induction xs) auto

lemma ring_spark_distinct:
  assumes "burst_ring v bs" "fw \<in> set (fireworks bs)" "sp \<in> set (sparks fw)"
  shows "distinct (spark_indices sp)"
proof -
  from ring_firework_distinct [OF assms(1,2)]
  have "distinct (concat (map spark_indices (sparks fw)))"
    by (simp add: firework_indices_def)
  moreover from assms(3) have "spark_indices sp \<in> set (map spark_indices (sparks fw))" by simp
  ultimately show ?thesis by (rule distinct_concat_member)
qed

lemma ring_firework_length:
  assumes "burst_ring v bs" "i < length (fireworks bs)"
  shows "length (firework_indices (fireworks bs ! i)) = 650"
  by (simp add: ring_nth [OF assms] ring_seg_650)

lemma ring_all_distinct:
  assumes "burst_ring v bs" "length (fireworks bs) \<le> 46"
  shows "distinct (concat (map firework_indices (fireworks bs)))"
proof (rule distinct_concat)
  let ?fws = "fireworks bs"
  note dj = ring_disjoint [OF assms, unfolded fireworks_disjoint_def, rule_format]
  have ne: "firework_indices (?fws ! i) \<noteq> []" if "i < length ?fws" for i
    using ring_firework_length [OF assms(1) that] by auto
  have neq: "firework_indices (?fws ! i) \<noteq> firework_indices (?fws ! j)"
    if "i < length ?fws" "j < length ?fws" "i \<noteq> j" for i j
  proof
    assume e: "firework_indices (?fws ! i) = firework_indices (?fws ! j)"
    from dj [OF that] have "set (firework_indices (?fws ! i)) = {}" unfolding e by simp
    with ne [OF that(1)] show False by simp
  qed
  show "distinct (map firework_indices ?fws)"
    unfolding distinct_conv_nth using neq by simp
  show "distinct ys" if "ys \<in> set (map firework_indices ?fws)" for ys
    using that ring_firework_distinct [OF assms(1)] by auto
  show "set ys \<inter> set zs = {}"
    if "ys \<in> set (map firework_indices ?fws)" "zs \<in> set (map firework_indices ?fws)" "ys \<noteq> zs" for ys zs
  proof -
    from that(1,2) obtain i j where i: "i < length ?fws" "ys = firework_indices (?fws ! i)"
      and j: "j < length ?fws" "zs = firework_indices (?fws ! j)"
      by (auto simp: in_set_conv_nth)
    with that(3) have "i \<noteq> j" by auto
    from dj [OF i(1) j(1) this] show ?thesis unfolding i(2) j(2) .
  qed
qed

lemma capacity_all_distinct:
  assumes "within_capacity evs (burst_init, b0)"
  shows "distinct (concat (map firework_indices (fireworks (fst (engine_run evs (burst_init, b0))))))"
proof -
  from reachable_ring obtain v where v: "burst_ring v (fst (engine_run evs (burst_init, b0)))"
    by blast
  have "length (fireworks (fst (burst_init, b0))) \<le> MAX_BURSTS"
    by (simp add: burst_init_def)
  from run_capacity [OF assms this]
  have "length (fireworks (fst (engine_run evs (burst_init, b0)))) \<le> 46"
    by (simp add: max_bursts)
  from ring_all_distinct [OF v this] show ?thesis .
qed

text \<open>
  Claim C4. In every execution, whatever spawns and frames came before, a call of
  \<open>spawnFirework\<close> records one new firework of \<open>SPARK_CNT\<close> sparks, each with a head and
  \<open>TRAIL_LEN\<close> trail indices, which together are exactly the indices the allocator
  returned for \<open>SPARK_CNT * (1 + TRAIL_LEN)\<close>: 650 different indices, every one in
  \<open>[FIREWORK_PARTICLES_START, PARTICLE_COUNT)\<close> and so none below \<open>FLOWER_COUNT\<close>. The
  cursor is in the reserved range before and after the call and moves forward by 650
  positions of the ring, wrapping to the start of the reserved range.
\<close>

theorem spawnFirework_allocation:
  "fireworks (fst (spawnFirework position now baseColor rnd (engine_run evs (burst_init, b0))))
     = fireworks (fst (engine_run evs (burst_init, b0)))
       @ [newest (spawnFirework position now baseColor rnd (engine_run evs (burst_init, b0)))]
   \<and> firework_indices (newest (spawnFirework position now baseColor rnd (engine_run evs (burst_init, b0))))
     = fst (allocateParticles (fireworkCursor (fst (engine_run evs (burst_init, b0))))
              (SPARK_CNT * (1 + TRAIL_LEN)))
   \<and> length (sparks (newest (spawnFirework position now baseColor rnd (engine_run evs (burst_init, b0)))))
     = SPARK_CNT
   \<and> (\<forall>sp \<in> set (sparks (newest (spawnFirework position now baseColor rnd (engine_run evs (burst_init, b0))))).
         length (trailIndices sp) = TRAIL_LEN)
   \<and> length (firework_indices (newest (spawnFirework position now baseColor rnd (engine_run evs (burst_init, b0)))))
     = 650
   \<and> distinct (firework_indices (newest (spawnFirework position now baseColor rnd (engine_run evs (burst_init, b0)))))
   \<and> (\<forall>i \<in> set (firework_indices (newest (spawnFirework position now baseColor rnd (engine_run evs (burst_init, b0))))).
         FIREWORK_PARTICLES_START \<le> i \<and> i < PARTICLE_COUNT \<and> \<not> i < FLOWER_COUNT)
   \<and> fireworkCursor (fst (spawnFirework position now baseColor rnd (engine_run evs (burst_init, b0))))
     = FIREWORK_PARTICLES_START
       + (fireworkCursor (fst (engine_run evs (burst_init, b0))) - FIREWORK_PARTICLES_START + 650)
           mod (PARTICLE_COUNT - FIREWORK_PARTICLES_START)
   \<and> FIREWORK_PARTICLES_START \<le> fireworkCursor (fst (engine_run evs (burst_init, b0)))
   \<and> fireworkCursor (fst (engine_run evs (burst_init, b0))) < PARTICLE_COUNT
   \<and> FIREWORK_PARTICLES_START
       \<le> fireworkCursor (fst (spawnFirework position now baseColor rnd (engine_run evs (burst_init, b0))))
   \<and> fireworkCursor (fst (spawnFirework position now baseColor rnd (engine_run evs (burst_init, b0))))
       < PARTICLE_COUNT"
proof -
  obtain bs b where st: "engine_run evs (burst_init, b0) = (bs, b)"
    by (cases "engine_run evs (burst_init, b0)")
  from reachable_ring [of evs b0] obtain v where "burst_ring v bs"
    by (auto simp: st)
  note rg = ring_cursor_range [OF this]
  from spawn_allocation [OF rg, of position now baseColor rnd b] rg
  show ?thesis unfolding st fst_conv by blast
qed

theorem spawnFirework_allocation_witness:
  "150000 \<in> set (firework_indices (newest
       (spawnFirework (0, 0, 0) 0 (1, 1, 1) (\<lambda>k. (0, 0, 0)) (engine_run [] (burst_init, buffers_zero)))))
   \<and> FIREWORK_PARTICLES_START \<le> 150000 \<and> 150000 < PARTICLE_COUNT \<and> \<not> 150000 < FLOWER_COUNT
   \<and> length (firework_indices (newest
       (spawnFirework (0, 0, 0) 0 (1, 1, 1) (\<lambda>k. (0, 0, 0)) (engine_run [] (burst_init, buffers_zero))))) = 650"
proof -
  note t = spawnFirework_allocation [of "(0, 0, 0)" 0 "(1, 1, 1)" "\<lambda>k. (0, 0, 0)" "[]" buffers_zero]
  let ?fw = "newest (spawnFirework (0, 0, 0) 0 (1, 1, 1) (\<lambda>k. (0, 0, 0)) (engine_run [] (burst_init, buffers_zero)))"
  have c: "fireworkCursor (fst (engine_run [] (burst_init, buffers_zero))) = ring_index 0"
    by (simp add: burst_init_def ring_index_def)
  from t have "firework_indices ?fw
      = fst (allocateParticles (fireworkCursor (fst (engine_run [] (burst_init, buffers_zero))))
              (SPARK_CNT * (1 + TRAIL_LEN)))"
    by blast
  then have ix: "firework_indices ?fw = ring_seg 0"
    unfolding c slots_per_burst allocate_ring_seg fst_conv .
  have "(\<lambda>m. ring_index (0 + m)) 0 \<in> (\<lambda>m. ring_index (0 + m)) ` set [0 ..< 650]"
    by (rule imageI) simp
  then have m: "150000 \<in> set (firework_indices ?fw)"
    unfolding ix by (simp add: ring_seg_650 ring_index_def FIREWORK_PARTICLES_START_def FLOWER_COUNT_def)
  from t m have r: "FIREWORK_PARTICLES_START \<le> 150000 \<and> 150000 < PARTICLE_COUNT \<and> \<not> 150000 < FLOWER_COUNT"
    by blast
  from t have l: "length (firework_indices ?fw) = 650" by blast
  from m r l show ?thesis by blast
qed

section \<open>Click bursts on the ring\<close>

lemma engine_run_append:
  "engine_run (xs @ ys) st = engine_run ys (engine_run xs st)"
  by (induction xs arbitrary: st) simp_all

lemma ring_seg_nth: "a < 650 \<Longrightarrow> ring_seg v ! a = ring_index (v + a)"
  by (simp add: ring_seg_650)

lemma ring_seg_length: "length (ring_seg v) = 650"
  by (simp add: ring_seg_650)

lemma ring_seg_take_drop:
  assumes "a + 12 \<le> 650"
  shows "take 12 (drop a (ring_seg v)) = map (\<lambda>m. ring_index (v + a + m)) [0 ..< 12]"
proof (rule nth_equalityI)
  show "length (take 12 (drop a (ring_seg v))) = length (map (\<lambda>m. ring_index (v + a + m)) [0 ..< 12])"
    using assms by (simp add: ring_seg_length)
next
  fix i assume "i < length (take 12 (drop a (ring_seg v)))"
  then have i: "i < 12" by simp
  with assms have "a + i < 650" by simp
  with i assms show "take 12 (drop a (ring_seg v)) ! i = map (\<lambda>m. ring_index (v + a + m)) [0 ..< 12] ! i"
    by (simp add: ring_seg_length ring_seg_nth add.assoc)
qed

lemma spawn_loop_structure:
  "p + n * 13 \<le> length idx \<Longrightarrow>
   fst (spawn_loop n k idx p position rnd b)
     = map (\<lambda>i. \<lparr> headIdx = idx ! (p + 13 * i),
                    trailIndices = take 12 (drop (p + 13 * i + 1) idx) \<rparr>) [0 ..< n]"
proof (induction n arbitrary: p k b)
  case 0
  then show ?case by simp
next
  case (Suc n)
  then have lt: "p < length idx" and tr: "(p + 1) + TRAIL_LEN \<le> length idx"
    and nx: "(p + 1 + TRAIL_LEN) + n * 13 \<le> length idx"
    by (simp_all add: TRAIL_LEN_def)
  have tt: "take_trail TRAIL_LEN idx (p + 1) = (take TRAIL_LEN (drop (p + 1) idx), p + 1 + TRAIL_LEN)"
    by (rule take_trail_eq [OF tr])
  let ?sp = "\<lparr> headIdx = idx ! p, trailIndices = take TRAIL_LEN (drop (p + 1) idx) \<rparr>"
  let ?f = "\<lambda>i. \<lparr> headIdx = idx ! (p + 13 * i), trailIndices = take 12 (drop (p + 13 * i + 1) idx) \<rparr>"
  have step: "fst (spawn_loop (Suc n) k idx p position rnd b)
      = ?sp # fst (spawn_loop n (k + 1) idx (p + 1 + TRAIL_LEN) position rnd (init_spark position (rnd k) ?sp b))"
    using lt by (simp only: spawn_loop.simps tt Let_def split_beta fst_conv snd_conv) simp
  have ih: "fst (spawn_loop n (k + 1) idx (p + 1 + TRAIL_LEN) position rnd (init_spark position (rnd k) ?sp b))
      = map (\<lambda>i. ?f (Suc i)) [0 ..< n]"
    unfolding Suc.IH [OF nx] by (simp add: TRAIL_LEN_def algebra_simps)
  have "map ?f [0 ..< Suc n] = ?f 0 # map ?f (map Suc [0 ..< n])"
    by (simp only: upt_conv_Cons [of 0 "Suc n"] map_Suc_upt list.map zero_less_Suc)
  also have "\<dots> = ?sp # map (\<lambda>i. ?f (Suc i)) [0 ..< n]"
    by (simp add: o_def TRAIL_LEN_def)
  finally show ?case unfolding step ih by simp
qed

lemma spawn_sparks_ring:
  "fst (spawn_loop SPARK_CNT 0 (ring_seg v) 0 position rnd b)
     = map (\<lambda>i. ring_spark (v + 13 * i)) [0 ..< 50]"
proof -
  have "0 + 50 * 13 \<le> length (ring_seg v)" by (simp add: ring_seg_length)
  from spawn_loop_structure [OF this, of 0 position rnd b]
  have "fst (spawn_loop 50 0 (ring_seg v) 0 position rnd b)
     = map (\<lambda>i. \<lparr> headIdx = ring_seg v ! (0 + 13 * i),
                    trailIndices = take 12 (drop (0 + 13 * i + 1) (ring_seg v)) \<rparr>) [0 ..< 50]" .
  also have "\<dots> = map (\<lambda>i. ring_spark (v + 13 * i)) [0 ..< 50]"
  proof (rule map_cong [OF refl])
    fix i assume "i \<in> set [0 ..< 50]"
    then have i: "i < (50::nat)" by simp
    then have a: "13 * i < 650" and b: "(13 * i + 1) + 12 \<le> 650" by simp_all
    show "\<lparr> headIdx = ring_seg v ! (0 + 13 * i),
            trailIndices = take 12 (drop (0 + 13 * i + 1) (ring_seg v)) \<rparr> = ring_spark (v + 13 * i)"
      using ring_seg_nth [OF a, of v] ring_seg_take_drop [OF b, of v]
      by (simp add: ring_spark_def add.assoc)
  qed
  finally show ?thesis by (simp add: SPARK_CNT_def)
qed

lemma click_step_fst:
  assumes "fireworkCursor (fst st) = ring_index v"
  shows "fst (engine_step click st)
     = (fst st)\<lparr> fireworkCursor := ring_index (v + 650),
                 fireworks := fireworks (fst st) @ [click_fw v] \<rparr>"
proof -
  have st: "st = (fst st, snd st)" by simp
  have "fst (engine_step click st)
      = fst (spawnFirework (0, 0, 0) 0 (1, 1, 1) (\<lambda>k. (0, 0, 0)) (fst st, snd st))"
    by (simp add: click_def)
  also have "\<dots> = (fst st)\<lparr> fireworkCursor := ring_index (v + 650),
                 fireworks := fireworks (fst st) @ [click_fw v] \<rparr>"
    unfolding spawnFirework_fst slots_per_burst assms allocate_ring_seg fst_conv snd_conv
      spawn_sparks_ring click_fw_def ..
  finally show ?thesis .
qed

lemma clicks_state:
  "fireworkCursor (fst st) = ring_index v \<Longrightarrow>
   fireworks (fst (engine_run (replicate n click) st))
     = fireworks (fst st) @ map (\<lambda>j. click_fw (v + 650 * j)) [0 ..< n]
   \<and> fireworkCursor (fst (engine_run (replicate n click) st)) = ring_index (v + 650 * n)"
proof (induction n)
  case 0
  then show ?case by simp
next
  case (Suc n)
  let ?s = "engine_run (replicate n click) st"
  from Suc have ih: "fireworks (fst ?s) = fireworks (fst st) @ map (\<lambda>j. click_fw (v + 650 * j)) [0 ..< n]"
    and c: "fireworkCursor (fst ?s) = ring_index (v + 650 * n)" by simp_all
  have "replicate (Suc n) click = replicate n click @ [click]"
    by (simp add: replicate_append_same)
  then have "engine_run (replicate (Suc n) click) st = engine_step click ?s"
    by (simp only: engine_run_append) simp
  then show ?case
    by (simp add: click_step_fst [OF c] ih algebra_simps)
qed

lemma state47_fireworks:
  "fireworks (fst state47) = map (\<lambda>j. click_fw (650 * j)) [0 ..< 47]"
proof -
  have "fireworkCursor (fst (burst_init, buffers_zero)) = ring_index 0"
    by (simp add: burst_init_def ring_index_def)
  from clicks_state [OF this, of 47] show ?thesis
    by (simp add: state47_def clicks47_def burst_init_def)
qed

section \<open>Spark velocities written by a spawn\<close>

lemma fold_keeps_drifts:
  "(\<And>x b. drifts (f x b) = drifts b) \<Longrightarrow> drifts (fold f xs b) = drifts b"
  by (induction xs arbitrary: b) simp_all

lemma init_spark_drifts:
  "drifts (init_spark position rnd sp b) = set3 (drifts b) (headIdx sp) (spark_velocity rnd)"
  by (cases position; cases rnd)
     (simp add: init_spark_def Let_def fold_keeps_drifts set3_def spark_velocity_def)

lemma spawn_loop_drifts_frame:
  "j \<notin> headIdx ` set (fst (spawn_loop n k idx p position rnd b)) \<Longrightarrow>
   vec_at (drifts (snd (spawn_loop n k idx p position rnd b))) j = vec_at (drifts b) j"
proof (induction n arbitrary: k p b)
  case 0
  then show ?case by simp
next
  case (Suc n)
  show ?case
  proof (cases "p \<ge> length idx")
    case True
    then show ?thesis by simp
  next
    case False
    let ?sp = "\<lparr> headIdx = idx ! p, trailIndices = fst (take_trail TRAIL_LEN idx (p + 1)) \<rparr>"
    let ?b = "init_spark position (rnd k) ?sp b"
    let ?rest = "spawn_loop n (k + 1) idx (snd (take_trail TRAIL_LEN idx (p + 1))) position rnd ?b"
    have f: "fst (spawn_loop (Suc n) k idx p position rnd b) = ?sp # fst ?rest"
      and s: "snd (spawn_loop (Suc n) k idx p position rnd b) = snd ?rest"
      using False by (simp_all add: Let_def split_beta)
    from Suc.prems have j1: "j \<noteq> idx ! p" and j2: "j \<notin> headIdx ` set (fst ?rest)"
      unfolding f by auto
    from Suc.IH [OF j2] have "vec_at (drifts (snd ?rest)) j = vec_at (drifts ?b) j" .
    also have "\<dots> = vec_at (drifts b) j"
      using j1 by (simp add: init_spark_drifts vec_at_set3)
    finally show ?thesis unfolding s .
  qed
qed

lemma click_step_snd:
  assumes "fireworkCursor (fst st) = ring_index v"
  shows "snd (engine_step click st)
     = snd (spawn_loop SPARK_CNT 0 (ring_seg v) 0 (0, 0, 0) (\<lambda>k. (0, 0, 0)) (snd st))"
proof -
  have "snd (engine_step click st)
      = snd (spawnFirework (0, 0, 0) 0 (1, 1, 1) (\<lambda>k. (0, 0, 0)) (fst st, snd st))"
    by (simp add: click_def)
  also have "\<dots> = snd (spawn_loop SPARK_CNT 0 (ring_seg v) 0 (0, 0, 0) (\<lambda>k. (0, 0, 0)) (snd st))"
    unfolding spawnFirework_def prod.case Let_def split_beta slots_per_burst assms allocate_ring_seg
      fst_conv snd_conv ..
  finally show ?thesis .
qed

lemma ring_spark_head: "headIdx (ring_spark a) = ring_index a"
  by (simp add: ring_spark_def)

lemma click_drifts_frame:
  assumes "fireworkCursor (fst st) = ring_index v" "\<forall>i < 50. ring_index (v + 13 * i) \<noteq> j"
  shows "vec_at (drifts (snd (engine_step click st))) j = vec_at (drifts (snd st)) j"
proof -
  have "j \<notin> headIdx ` set (fst (spawn_loop SPARK_CNT 0 (ring_seg v) 0 (0, 0, 0) (\<lambda>k. (0, 0, 0)) (snd st)))"
    using assms(2) by (auto simp: spawn_sparks_ring ring_spark_head)
  from spawn_loop_drifts_frame [OF this] show ?thesis
    unfolding click_step_snd [OF assms(1)] .
qed

lemma ring_index_zero_iff: "ring_index x = 150000 \<longleftrightarrow> x mod 30000 = 0"
  unfolding ring_index_def ring_size
  by (simp add: FIREWORK_PARTICLES_START_def FLOWER_COUNT_def)

lemma ring_index_low: "0 < x \<Longrightarrow> x < 30000 \<Longrightarrow> ring_index x \<noteq> 150000"
  by (simp add: ring_index_zero_iff)

lemma later_heads:
  assumes "1 \<le> j" "j \<le> 46" "i < 50"
  shows "ring_index (650 * j + 13 * i) \<noteq> 150000"
proof
  assume "ring_index (650 * j + 13 * i) = 150000"
  then have "(650 * j + 13 * i) mod 30000 = 0" by (simp add: ring_index_zero_iff)
  then obtain q where q: "650 * j + 13 * i = 30000 * q" by (auto simp: mod_eq_0_iff_dvd)
  have "650 * j + 13 * i < 60000" "0 < 650 * j + 13 * i" using assms by simp_all
  with q have "q = 1" by simp_all
  with q have "13 * (50 * j + i) = 30000" by simp
  then have "13 dvd (30000::nat)" by (metis dvd_triv_left)
  then show False by simp
qed

lemma spark_velocity_zero: "spark_velocity (0, 0, 0) = (0, 0, 0.03)"
  by (simp add: spark_velocity_def)

lemma spawn_loop_first_drift:
  assumes len: "p + Suc n * 13 \<le> length idx"
    and nh: "\<forall>i < n. idx ! (p + 13 + 13 * i) \<noteq> idx ! p"
  shows "vec_at (drifts (snd (spawn_loop (Suc n) k idx p position rnd b))) (idx ! p)
     = spark_velocity (rnd k)"
proof -
  from len have lt: "p < length idx" and tr: "(p + 1) + TRAIL_LEN \<le> length idx"
    and nx: "(p + 13) + n * 13 \<le> length idx"
    by (simp_all add: TRAIL_LEN_def)
  have tt: "take_trail TRAIL_LEN idx (p + 1) = (take TRAIL_LEN (drop (p + 1) idx), p + 13)"
    using take_trail_eq [OF tr] by (simp add: TRAIL_LEN_def)
  let ?sp = "\<lparr> headIdx = idx ! p, trailIndices = take TRAIL_LEN (drop (p + 1) idx) \<rparr>"
  let ?b = "init_spark position (rnd k) ?sp b"
  let ?rest = "spawn_loop n (k + 1) idx (p + 13) position rnd ?b"
  have s: "snd (spawn_loop (Suc n) k idx p position rnd b) = snd ?rest"
    using lt by (simp only: spawn_loop.simps tt Let_def split_beta fst_conv snd_conv) simp
  have "idx ! p \<notin> headIdx ` set (fst ?rest)"
    unfolding spawn_loop_structure [OF nx] using nh by auto
  from spawn_loop_drifts_frame [OF this]
  have "vec_at (drifts (snd ?rest)) (idx ! p) = vec_at (drifts ?b) (idx ! p)" .
  also have "\<dots> = spark_velocity (rnd k)"
    by (simp add: init_spark_drifts vec_at_set3)
  finally show ?thesis unfolding s .
qed

lemma ring_index_0: "ring_index 0 = 150000"
  by (simp add: ring_index_zero_iff)

lemma first_click_drift:
  "vec_at (drifts (snd (engine_step click (burst_init, b)))) 150000 = (0, 0, 0.03)"
proof -
  let ?idx = "ring_seg 0"
  have c: "fireworkCursor (fst (burst_init, b)) = ring_index 0"
    by (simp add: burst_init_def ring_index_def)
  have h0: "?idx ! 0 = 150000"
    using ring_seg_nth [of 0 0] by (simp add: ring_index_0)
  have len: "0 + Suc 49 * 13 \<le> length ?idx" by (simp add: ring_seg_length)
  have nh: "\<forall>i < 49. ?idx ! (0 + 13 + 13 * i) \<noteq> ?idx ! 0"
  proof (intro allI impI)
    fix i :: nat assume i: "i < 49"
    then have "0 + 13 + 13 * i < 650" by simp
    from ring_seg_nth [OF this, of 0]
    have "?idx ! (0 + 13 + 13 * i) = ring_index (0 + 13 + 13 * i)" by simp
    moreover have "ring_index (0 + 13 + 13 * i) \<noteq> 150000"
      using i by (intro ring_index_low) simp_all
    ultimately show "?idx ! (0 + 13 + 13 * i) \<noteq> ?idx ! 0" unfolding h0 by simp
  qed
  have S: "SPARK_CNT = Suc 49" by (simp add: SPARK_CNT_def)
  from spawn_loop_first_drift [OF len nh, of 0 "(0, 0, 0)" "\<lambda>k. (0, 0, 0)" b]
  show ?thesis
    unfolding click_step_snd [OF c] snd_conv S h0 spark_velocity_zero .
qed

lemma clicks_drift:
  "n \<le> 46 \<Longrightarrow>
   vec_at (drifts (snd (engine_run (replicate (Suc n) click) (burst_init, buffers_zero)))) 150000
     = (0, 0, 0.03)"
proof (induction n)
  case 0
  show ?case using first_click_drift [of buffers_zero] by simp
next
  case (Suc n)
  let ?s = "engine_run (replicate (Suc n) click) (burst_init, buffers_zero)"
  have c0: "fireworkCursor (fst (burst_init, buffers_zero)) = ring_index 0"
    by (simp add: burst_init_def ring_index_def)
  from clicks_state [OF c0, of "Suc n"]
  have c: "fireworkCursor (fst ?s) = ring_index (650 * Suc n)" by simp
  have nh: "\<forall>i < 50. ring_index (650 * Suc n + 13 * i) \<noteq> 150000"
    using later_heads [of "Suc n"] Suc.prems by simp
  have "replicate (Suc (Suc n)) click = replicate (Suc n) click @ [click]"
    by (simp add: replicate_append_same)
  then have "engine_run (replicate (Suc (Suc n)) click) (burst_init, buffers_zero) = engine_step click ?s"
    by (simp only: engine_run_append) simp
  then show ?case
    using click_drifts_frame [OF c nh] Suc.IH Suc.prems by simp
qed

lemma state47_drift: "vec_at (drifts (snd state47)) 150000 = (0, 0, 0.03)"
  using clicks_drift [of 46] by (simp add: state47_def clicks47_def)

section \<open>A frame after 47 click bursts\<close>

lemma upt_split: "i \<le> j \<Longrightarrow> j < k \<Longrightarrow> [i ..< k] = [i ..< j] @ j # [Suc j ..< k]"
proof -
  assume a: "i \<le> j" "j < k"
  then have "[i ..< k] = [i ..< j] @ [j ..< k]"
    using upt_add_eq_append [of i j "k - j"] by simp
  also have "[j ..< k] = j # [Suc j ..< k]" using a by (simp add: upt_conv_Cons)
  finally show ?thesis .
qed

lemma ring_spark_indices:
  "spark_indices (ring_spark a) = map (\<lambda>m. ring_index (a + m)) [0 ..< 13]"
proof -
  have "[0 ..< 13] = 0 # map Suc [0 ..< 12]"
    by (simp add: map_Suc_upt upt_conv_Cons)
  then show ?thesis
    by (simp add: spark_indices_def ring_spark_def o_def)
qed

lemma ring_spark_distinct_indices: "distinct (spark_indices (ring_spark a))"
  unfolding ring_spark_indices by (rule ring_segment_distinct) (simp add: ring_size)

lemma ring_spark_trail: "m < 12 \<Longrightarrow> trailIndices (ring_spark a) ! m = ring_index (a + 1 + m)"
  by (simp add: ring_spark_def)

lemma ring_spark_trail_length: "length (trailIndices (ring_spark a)) = 12"
  by (simp add: ring_spark_def)

lemma spark_jobs_append: "spark_jobs (xs @ ys) = spark_jobs xs @ spark_jobs ys"
  by (simp add: spark_jobs_def)

lemma spark_jobs_click:
  "spark_jobs [click_fw v] = map (\<lambda>i. (1, (1, 1, 1), ring_spark (v + 13 * i))) [0 ..< 50]"
  by (simp add: spark_jobs_def click_fw_def o_def)

lemma ring_jobs_member:
  "x \<in> set (concat (map job_indices (map (\<lambda>i. (n, c, ring_spark (f i))) xs))) \<Longrightarrow>
   \<exists>i \<in> set xs. \<exists>m < 13. x = ring_index (f i + m)"
  by (auto simp: job_indices_def ring_spark_indices) blast

lemma click_fw_member:
  "x \<in> set (firework_indices (click_fw v)) \<Longrightarrow> \<exists>i < 50. \<exists>m < 13. x = ring_index (v + 13 * i + m)"
  by (auto simp: firework_indices_def click_fw_def ring_spark_indices) blast

lemma ring_index_1_iff: "ring_index x = 150001 \<longleftrightarrow> x mod 30000 = 1"
  unfolding ring_index_def ring_size
  by (simp add: FIREWORK_PARTICLES_START_def FLOWER_COUNT_def)

lemma ring_index_second_lap:
  assumes "30002 \<le> x" "x < 60000"
  shows "ring_index x \<noteq> 150001"
proof -
  define y where "y = x - 30000"
  with assms have "x = 30000 + y" "2 \<le> y" "y < 30000" by simp_all
  then show ?thesis by (simp add: ring_index_1_iff)
qed

lemma spark_jobs_47:
  "spark_jobs (map (\<lambda>j. click_fw (650 * j)) [0 ..< 47])
     = (1, (1, 1, 1), ring_spark 0)
       # (map (\<lambda>i. (1, (1, 1, 1), ring_spark (0 + 13 * i))) [1 ..< 50]
          @ spark_jobs (map (\<lambda>j. click_fw (650 * j)) [1 ..< 46])
          @ map (\<lambda>i. (1, (1, 1, 1), ring_spark (29900 + 13 * i))) [0 ..< 7])
       @ (1, (1, 1, 1), ring_spark 29991)
       # map (\<lambda>i. (1, (1, 1, 1), ring_spark (29900 + 13 * i))) [8 ..< 50]"
proof -
  have "[0 ..< 47] = [0 ..< 0] @ 0 # [Suc 0 ..< 47]" by (rule upt_split) simp_all
  also have "[Suc 0 ..< 47] = [Suc 0 ..< 46] @ 46 # [Suc 46 ..< 47]" by (rule upt_split) simp_all
  finally have u: "[0 ..< 47] = [0] @ [1 ..< 46] @ [46]" by simp
  have a: "[0 ..< 50] = [0 ..< 0] @ 0 # [Suc 0 ..< 50]" by (rule upt_split) simp_all
  have b: "[0 ..< 50] = [0 ..< 7] @ 7 # [Suc 7 ..< 50]" by (rule upt_split) simp_all
  have f: "spark_jobs [click_fw 0]
      = (1, (1, 1, 1), ring_spark 0) # map (\<lambda>i. (1, (1, 1, 1), ring_spark (0 + 13 * i))) [1 ..< 50]"
    unfolding spark_jobs_click by (subst a) simp
  have l: "spark_jobs [click_fw 29900]
      = map (\<lambda>i. (1, (1, 1, 1), ring_spark (29900 + 13 * i))) [0 ..< 7]
        @ (1, (1, 1, 1), ring_spark 29991)
        # map (\<lambda>i. (1, (1, 1, 1), ring_spark (29900 + 13 * i))) [8 ..< 50]"
    unfolding spark_jobs_click by (subst b) simp
  have "spark_jobs (map (\<lambda>j. click_fw (650 * j)) [0 ..< 47])
      = spark_jobs [click_fw 0] @ spark_jobs (map (\<lambda>j. click_fw (650 * j)) [1 ..< 46])
          @ spark_jobs [click_fw 29900]"
    unfolding u map_append spark_jobs_append by simp
  then show ?thesis unfolding f l by simp
qed

lemma middle_jobs_miss:
  "150000 \<notin> set (concat (map job_indices
     (map (\<lambda>i. (1, (1, 1, 1), ring_spark (0 + 13 * i))) [1 ..< 50]
      @ spark_jobs (map (\<lambda>j. click_fw (650 * j)) [1 ..< 46])
      @ map (\<lambda>i. (1, (1, 1, 1), ring_spark (29900 + 13 * i))) [0 ..< 7])))"
proof -
  have 1: "150000 \<notin> set (concat (map job_indices
      (map (\<lambda>i. (1 :: nat, (1, 1, 1) :: vec3, ring_spark (0 + 13 * i))) [1 ..< 50])))"
  proof
    assume "150000 \<in> set (concat (map job_indices
      (map (\<lambda>i. (1 :: nat, (1, 1, 1) :: vec3, ring_spark (0 + 13 * i))) [1 ..< 50])))"
    from ring_jobs_member [OF this] obtain i m
      where im: "i \<in> set [1 ..< 50]" "m < 13" "150000 = ring_index (0 + 13 * i + m)" by blast
    from im(1) have "1 \<le> i" "i < 50" by (simp_all only: set_upt atLeastLessThan_iff)
    with im(2) have "ring_index (0 + 13 * i + m) \<noteq> 150000"
      by (intro ring_index_low) simp_all
    with im(3) show False by simp
  qed
  have 2: "150000 \<notin> set (concat (map job_indices
      (spark_jobs (map (\<lambda>j. click_fw (650 * j)) [1 ..< 46]))))"
  proof
    assume "150000 \<in> set (concat (map job_indices
      (spark_jobs (map (\<lambda>j. click_fw (650 * j)) [1 ..< 46]))))"
    then obtain j where j0: "j \<in> set [1 ..< 46]"
      and j2: "150000 \<in> set (firework_indices (click_fw (650 * j)))"
      unfolding jobs_indices by auto
    from j0 have j: "1 \<le> j" "j < 46" by (simp_all only: set_upt atLeastLessThan_iff)
    from click_fw_member [OF j2] obtain i m
      where im: "i < 50" "m < 13" "150000 = ring_index (650 * j + 13 * i + m)" by blast
    have "ring_index (650 * j + 13 * i + m) \<noteq> 150000"
      using j im(1,2) by (intro ring_index_low) simp_all
    with im(3) show False by simp
  qed
  have 3: "150000 \<notin> set (concat (map job_indices
      (map (\<lambda>i. (1 :: nat, (1, 1, 1) :: vec3, ring_spark (29900 + 13 * i))) [0 ..< 7])))"
  proof
    assume "150000 \<in> set (concat (map job_indices
      (map (\<lambda>i. (1 :: nat, (1, 1, 1) :: vec3, ring_spark (29900 + 13 * i))) [0 ..< 7])))"
    from ring_jobs_member [OF this] obtain i m
      where im: "i \<in> set [0 ..< 7]" "m < 13" "150000 = ring_index (29900 + 13 * i + m)" by blast
    from im(1) have "0 \<le> i" "i < 7" by (simp_all only: set_upt atLeastLessThan_iff)
    with im(2) have "ring_index (29900 + 13 * i + m) \<noteq> 150000"
      by (intro ring_index_low) simp_all
    with im(3) show False by simp
  qed
  from 1 2 3 show ?thesis by simp
qed

lemma last_jobs_miss:
  "150001 \<notin> set (concat (map job_indices
     (map (\<lambda>i. (1 :: nat, (1, 1, 1) :: vec3, ring_spark (29900 + 13 * i))) [8 ..< 50])))"
proof
  assume "150001 \<in> set (concat (map job_indices
     (map (\<lambda>i. (1 :: nat, (1, 1, 1) :: vec3, ring_spark (29900 + 13 * i))) [8 ..< 50])))"
  from ring_jobs_member [OF this] obtain i m
    where im: "i \<in> set [8 ..< 50]" "m < 13" "150001 = ring_index (29900 + 13 * i + m)" by blast
  from im(1) have "8 \<le> i" "i < 50" by (simp_all only: set_upt atLeastLessThan_iff)
  with im(2) have "ring_index (29900 + 13 * i + m) \<noteq> 150001"
    by (intro ring_index_second_lap) simp_all
  with im(3) show False by simp
qed

lemma crowded_frame:
  "vec_at (curr (fireworks_buffers (map (\<lambda>j. click_fw (650 * j)) [0 ..< 47]) b)) 150001
     = add3 (vec_at (curr b) 150000) (head_velocity (vec_at (drifts b) 150000))"
proof -
  let ?M = "map (\<lambda>i. (1 :: nat, (1, 1, 1) :: vec3, ring_spark (0 + 13 * i))) [1 ..< 50]
      @ spark_jobs (map (\<lambda>j. click_fw (650 * j)) [1 ..< 46])
      @ map (\<lambda>i. (1, (1, 1, 1), ring_spark (29900 + 13 * i))) [0 ..< 7]"
  let ?P = "map (\<lambda>i. (1 :: nat, (1, 1, 1) :: vec3, ring_spark (29900 + 13 * i))) [8 ..< 50]"
  let ?b1 = "update_spark 1 (1, 1, 1) (ring_spark 0) b"
  let ?b2 = "fold run_job ?M ?b1"
  let ?b3 = "update_spark 1 (1, 1, 1) (ring_spark 29991) ?b2"
  let ?b4 = "fold run_job ?P ?b3"
  have e: "fireworks_buffers (map (\<lambda>j. click_fw (650 * j)) [0 ..< 47]) b = ?b4"
    unfolding fireworks_buffers_def fireworks_filter_eq spark_jobs_47
    by (simp add: run_job_triple)
  have h: "headIdx (ring_spark 0) = 150000" by (simp add: ring_spark_head ring_index_0)
  have t8: "trailIndices (ring_spark 29991) ! (9 - 1) = 150000"
    by (simp add: ring_spark_trail ring_index_zero_iff)
  have t9: "trailIndices (ring_spark 29991) ! 9 = 150001"
    by (simp add: ring_spark_trail ring_index_1_iff)
  from jobs_frame [OF last_jobs_miss, of ?b3]
  have "vec_at (curr ?b4) 150001 = vec_at (curr ?b3) 150001" by blast
  also from update_spark_trail [OF ring_spark_distinct_indices, of 9 29991 1 "(1, 1, 1)" ?b2]
  have "vec_at (curr ?b3) 150001 = vec_at (curr ?b2) 150000"
    unfolding t8 t9 by (simp add: ring_spark_trail_length)
  also from jobs_frame [OF middle_jobs_miss, of ?b1]
  have "vec_at (curr ?b2) 150000 = vec_at (curr ?b1) 150000" by blast
  also from update_spark_head [OF ring_spark_distinct_indices, of 1 "(1, 1, 1)" 0 b]
  have "vec_at (curr ?b1) 150000
      = add3 (vec_at (curr b) 150000) (head_velocity (vec_at (drifts b) 150000))"
    unfolding h by blast
  finally show ?thesis unfolding e .
qed

lemma fw_last_eq: "fw_last = click_fw 29900"
  by (simp add: fw_last_def state47_fireworks)

lemma spark_wrapped_eq: "spark_wrapped = ring_spark 29991"
  by (simp add: spark_wrapped_def fw_last_eq click_fw_def)

lemma steady_particle_drifts: "drifts (steady_particle e sh rnd i b) = drifts b"
  by (simp add: steady_particle_def Let_def split_beta)

lemma steady_pass_drifts: "drifts (steady_pass e sh rnd act b) = drifts b"
  unfolding steady_pass_def
  by (rule fold_keeps_drifts) (simp add: steady_particle_drifts)

lemma frame_step_buffers:
  assumes "j \<in> set (concat (map firework_indices (fireworks (fst st))))"
  shows "vec_at (curr (snd (engine_step (Frame e sh rnd) st))) j
           = vec_at (curr (fireworks_buffers (fireworks (fst st)) (snd st))) j
    \<and> vec_at (currCol (snd (engine_step (Frame e sh rnd) st))) j
           = vec_at (currCol (fireworks_buffers (fireworks (fst st)) (snd st))) j"
proof -
  obtain bs b where st: "st = (bs, b)" by (cases st)
  from assms have "j \<in> set (concat (map firework_indices (fireworks bs)))" by (simp add: st)
  from steady_loop_skips [OF this, of e sh rnd "[0 ..< PARTICLE_COUNT]"
      "fireworks_buffers (fireworks bs) b"]
  show ?thesis
    unfolding st engine_step.simps animate_particles_eq snd_conv fst_conv steady_pass_def .
qed

lemma frame_step_drifts:
  "drifts (snd (engine_step (Frame e sh rnd) st))
     = drifts (fireworks_buffers (fireworks (fst st)) (snd st))"
  by (cases st) (simp add: animate_particles_eq steady_pass_drifts)

lemma spark_index_member:
  "fw \<in> set fws \<Longrightarrow> sp \<in> set (sparks fw) \<Longrightarrow> j \<in> set (spark_indices sp) \<Longrightarrow>
   j \<in> set (concat (map firework_indices fws))"
  by (auto simp: firework_indices_def)


text \<open>
  Claim C6 as stated fails for fireworks that share indices. After 47 click bursts with
  no frame in between, the allocator has wrapped: trail particle 8 of spark 7 of the last
  firework is particle 150000, the head of the first firework's first spark. In the next
  frame that head is moved before spark 7 of the last firework shifts its trail, so trail
  particle 9 ends the frame at the moved head and not where trail particle 8 was when
  the frame started.
\<close>

theorem trail_chain_shared_counterexample:
  "fw_last \<in> set (fireworks (fst state47))
   \<and> spark_wrapped \<in> set (sparks fw_last)
   \<and> 9 < length (trailIndices spark_wrapped)
   \<and> vec_at (curr (snd (engine_step frame0 state47))) (trailIndices spark_wrapped ! 9)
       \<noteq> vec_at (curr (snd state47)) (trailIndices spark_wrapped ! 8)"
proof -
  have l: "length (fireworks (fst state47)) = 47" by (simp add: state47_fireworks)
  then have 1: "fw_last \<in> set (fireworks (fst state47))"
    unfolding fw_last_def by (intro nth_mem) simp
  have 2: "spark_wrapped \<in> set (sparks fw_last)"
    unfolding spark_wrapped_def by (intro nth_mem) (simp add: fw_last_eq click_fw_def)
  have 3: "9 < length (trailIndices spark_wrapped)"
    by (simp add: spark_wrapped_eq ring_spark_trail_length)
  have t8: "trailIndices spark_wrapped ! 8 = 150000"
    by (simp add: spark_wrapped_eq ring_spark_trail ring_index_zero_iff)
  have t9: "trailIndices spark_wrapped ! 9 = 150001"
    by (simp add: spark_wrapped_eq ring_spark_trail ring_index_1_iff)
  have "trailIndices spark_wrapped ! 9 \<in> set (spark_indices spark_wrapped)"
    using 3 by (simp add: spark_indices_def)
  then have "150001 \<in> set (spark_indices spark_wrapped)" unfolding t9 .
  from frame_step_buffers [OF spark_index_member [OF 1 2 this], of env_both shapes_zero "\<lambda>i k. 0"]
  have "vec_at (curr (snd (engine_step frame0 state47))) 150001
      = vec_at (curr (fireworks_buffers (fireworks (fst state47)) (snd state47))) 150001"
    unfolding frame0_def by blast
  also have "\<dots> = add3 (vec_at (curr (snd state47)) 150000)
                       (head_velocity (vec_at (drifts (snd state47)) 150000))"
    unfolding state47_fireworks by (rule crowded_frame)
  finally have "vec_at (curr (snd (engine_step frame0 state47))) 150001
      = add3 (vec_at (curr (snd state47)) 150000) (head_velocity (0, 0, 0.03))"
    unfolding state47_drift .
  moreover have "add3 v (head_velocity (0, 0, 0.03)) \<noteq> v" for v :: vec3
    by (cases v) (simp add: add3_def head_velocity_def)
  ultimately have "vec_at (curr (snd (engine_step frame0 state47))) 150001
      \<noteq> vec_at (curr (snd state47)) 150000" by simp
  with 1 2 3 show ?thesis unfolding t8 t9 by blast
qed

text \<open>
  Claim C6, within the capacity of the ring. In an execution in which no spawn happens
  while 46 fireworks are alive, for every live firework and every spark of it, a frame
  shifts the trail as a chain delayed by one frame: trail particle \<open>t \<ge> 1\<close> ends the
  frame where trail particle \<open>t - 1\<close> was when the frame started, trail particle 0 where
  the head was; the head's velocity gets gravity on \<open>y\<close> and then drag, and the head
  moves by the new velocity. Trail particle \<open>t\<close> is coloured with the firework's colour
  times \<open>trail_intensity\<close>, which falls strictly along the trail and with the firework's
  age (up to the age of 90).
\<close>

theorem trail_propagation:
  assumes "within_capacity evs (burst_init, b0)"
    and "fw \<in> set (fireworks (fst (engine_run evs (burst_init, b0))))"
    and "sp \<in> set (sparks fw)"
  shows "(\<forall>t. 1 \<le> t \<and> t < length (trailIndices sp) \<longrightarrow>
            vec_at (curr (snd (engine_step (Frame e sh rnd) (engine_run evs (burst_init, b0)))))
                (trailIndices sp ! t)
              = vec_at (curr (snd (engine_run evs (burst_init, b0)))) (trailIndices sp ! (t - 1)))
    \<and> (0 < length (trailIndices sp) \<longrightarrow>
            vec_at (curr (snd (engine_step (Frame e sh rnd) (engine_run evs (burst_init, b0)))))
                (trailIndices sp ! 0)
              = vec_at (curr (snd (engine_run evs (burst_init, b0)))) (headIdx sp))
    \<and> vec_at (drifts (snd (engine_step (Frame e sh rnd) (engine_run evs (burst_init, b0)))))
          (headIdx sp)
        = head_velocity (vec_at (drifts (snd (engine_run evs (burst_init, b0)))) (headIdx sp))
    \<and> vec_at (curr (snd (engine_step (Frame e sh rnd) (engine_run evs (burst_init, b0)))))
          (headIdx sp)
        = add3 (vec_at (curr (snd (engine_run evs (burst_init, b0)))) (headIdx sp))
            (head_velocity (vec_at (drifts (snd (engine_run evs (burst_init, b0)))) (headIdx sp)))
    \<and> (\<forall>t < length (trailIndices sp).
            vec_at (currCol (snd (engine_step (Frame e sh rnd) (engine_run evs (burst_init, b0)))))
                (trailIndices sp ! t)
              = scale3 (color fw) (trail_intensity (age fw + 1) (length (trailIndices sp)) t))
    \<and> (\<forall>t t'. t < t' \<and> t' < length (trailIndices sp) \<and> age fw + 1 < 90 \<longrightarrow>
            trail_intensity (age fw + 1) (length (trailIndices sp)) t'
              < trail_intensity (age fw + 1) (length (trailIndices sp)) t)
    \<and> (\<forall>t a'. t < length (trailIndices sp) \<and> age fw + 1 < a' \<and> a' \<le> 90 \<longrightarrow>
            trail_intensity a' (length (trailIndices sp)) t
              < trail_intensity (age fw + 1) (length (trailIndices sp)) t)"
proof -
  let ?S = "engine_run evs (burst_init, b0)"
  let ?S' = "engine_step (Frame e sh rnd) ?S"
  let ?F = "fireworks_buffers (fireworks (fst ?S)) (snd ?S)"
  let ?tr = "trailIndices sp"
  note ch = frame_trail_chain [OF capacity_all_distinct [OF assms(1)] assms(2,3), of "snd ?S"]
  have hd: "headIdx sp \<in> set (concat (map firework_indices (fireworks (fst ?S))))"
    by (rule spark_index_member [OF assms(2,3)]) (simp add: spark_indices_def)
  have tl: "?tr ! t \<in> set (concat (map firework_indices (fireworks (fst ?S))))"
    if "t < length ?tr" for t
    by (rule spark_index_member [OF assms(2,3)]) (simp add: spark_indices_def that)
  have dr: "drifts (snd ?S') = drifts ?F" by (rule frame_step_drifts)
  have c1: "\<forall>t. 1 \<le> t \<and> t < length ?tr \<longrightarrow>
      vec_at (curr (snd ?S')) (?tr ! t) = vec_at (curr (snd ?S)) (?tr ! (t - 1))"
  proof (intro allI impI)
    fix t assume t: "1 \<le> t \<and> t < length ?tr"
    with frame_step_buffers [OF tl, of t e sh rnd]
    have "vec_at (curr (snd ?S')) (?tr ! t) = vec_at (curr ?F) (?tr ! t)" by blast
    also from ch t have "\<dots> = vec_at (curr (snd ?S)) (?tr ! (t - 1))" by blast
    finally show "vec_at (curr (snd ?S')) (?tr ! t) = vec_at (curr (snd ?S)) (?tr ! (t - 1))" .
  qed
  have c2: "0 < length ?tr \<longrightarrow>
      vec_at (curr (snd ?S')) (?tr ! 0) = vec_at (curr (snd ?S)) (headIdx sp)"
  proof
    assume t: "0 < length ?tr"
    with frame_step_buffers [OF tl, of 0 e sh rnd]
    have "vec_at (curr (snd ?S')) (?tr ! 0) = vec_at (curr ?F) (?tr ! 0)" by blast
    also from ch t have "\<dots> = vec_at (curr (snd ?S)) (headIdx sp)" by blast
    finally show "vec_at (curr (snd ?S')) (?tr ! 0) = vec_at (curr (snd ?S)) (headIdx sp)" .
  qed
  have c3: "vec_at (drifts (snd ?S')) (headIdx sp)
      = head_velocity (vec_at (drifts (snd ?S)) (headIdx sp))"
    unfolding dr using ch by blast
  have "vec_at (curr (snd ?S')) (headIdx sp) = vec_at (curr ?F) (headIdx sp)"
    using frame_step_buffers [OF hd, of e sh rnd] by blast
  also from ch have "\<dots> = add3 (vec_at (curr (snd ?S)) (headIdx sp))
      (head_velocity (vec_at (drifts (snd ?S)) (headIdx sp)))" by blast
  finally have c4: "vec_at (curr (snd ?S')) (headIdx sp)
      = add3 (vec_at (curr (snd ?S)) (headIdx sp))
          (head_velocity (vec_at (drifts (snd ?S)) (headIdx sp)))" .
  have c5: "\<forall>t < length ?tr. vec_at (currCol (snd ?S')) (?tr ! t)
      = scale3 (color fw) (trail_intensity (age fw + 1) (length ?tr) t)"
  proof (intro allI impI)
    fix t assume t: "t < length ?tr"
    with frame_step_buffers [OF tl, of t e sh rnd]
    have "vec_at (currCol (snd ?S')) (?tr ! t) = vec_at (currCol ?F) (?tr ! t)" by blast
    also from ch t have "\<dots> = scale3 (color fw) (trail_intensity (age fw + 1) (length ?tr) t)"
      by blast
    finally show "vec_at (currCol (snd ?S')) (?tr ! t)
      = scale3 (color fw) (trail_intensity (age fw + 1) (length ?tr) t)" .
  qed
  have c6: "\<forall>t t'. t < t' \<and> t' < length ?tr \<and> age fw + 1 < 90 \<longrightarrow>
      trail_intensity (age fw + 1) (length ?tr) t' < trail_intensity (age fw + 1) (length ?tr) t"
    using trail_intensity_position by blast
  have c7: "\<forall>t a'. t < length ?tr \<and> age fw + 1 < a' \<and> a' \<le> 90 \<longrightarrow>
      trail_intensity a' (length ?tr) t < trail_intensity (age fw + 1) (length ?tr) t"
    using trail_intensity_age by blast
  from c1 c2 c3 c4 c5 c6 c7 show ?thesis by blast
qed

theorem trail_propagation_witness:
  "within_capacity [click] (burst_init, buffers_zero)
   \<and> newest one_click \<in> set (fireworks (fst (engine_run [click] (burst_init, buffers_zero))))
   \<and> first_spark \<in> set (sparks (newest one_click))
   \<and> 1 < length (trailIndices first_spark)
   \<and> age (newest one_click) + 1 < 90
   \<and> vec_at (curr (snd (engine_step frame0 (engine_run [click] (burst_init, buffers_zero)))))
        (trailIndices first_spark ! 1)
       = vec_at (curr (snd (engine_run [click] (burst_init, buffers_zero)))) (trailIndices first_spark ! 0)
   \<and> vec_at (curr (snd (engine_step frame0 (engine_run [click] (burst_init, buffers_zero)))))
        (trailIndices first_spark ! 0)
       = vec_at (curr (snd (engine_run [click] (burst_init, buffers_zero)))) (headIdx first_spark)
   \<and> vec_at (currCol (snd (engine_step frame0 (engine_run [click] (burst_init, buffers_zero)))))
        (trailIndices first_spark ! 1)
       = scale3 (color (newest one_click))
           (trail_intensity (age (newest one_click) + 1) (length (trailIndices first_spark)) 1)
   \<and> trail_intensity (age (newest one_click) + 1) (length (trailIndices first_spark)) 1
       < trail_intensity (age (newest one_click) + 1) (length (trailIndices first_spark)) 0"
proof -
  have oc: "one_click = spawnFirework (0, 0, 0) 0 (1, 1, 1) (\<lambda>k. (0, 0, 0)) (burst_init, buffers_zero)"
    by (simp add: one_click_def click_def)
  have run: "engine_run [click] (burst_init, buffers_zero) = one_click"
    by (simp add: one_click_def)
  have fws: "fireworks (fst one_click) = fireworks burst_init @ [newest one_click]"
    unfolding oc by (simp add: newest_def spawnFirework_fst)
  then have a: "newest one_click \<in> set (fireworks (fst (engine_run [click] (burst_init, buffers_zero))))"
    unfolding run by simp
  from spawned_sparks [of "(0, 0, 0)" 0 "(1, 1, 1)" "\<lambda>k. (0, 0, 0)" burst_init buffers_zero]
  have n: "length (sparks (newest one_click)) = SPARK_CNT"
    and tl: "\<forall>sp \<in> set (sparks (newest one_click)). length (trailIndices sp) = TRAIL_LEN"
    unfolding oc by blast+
  from n have "sparks (newest one_click) \<noteq> []" by (auto simp: SPARK_CNT_def)
  then have b: "first_spark \<in> set (sparks (newest one_click))"
    unfolding first_spark_def by (rule hd_in_set)
  have c: "within_capacity [click] (burst_init, buffers_zero)"
    by (simp add: click_def burst_init_def max_bursts)
  from tl b have l: "1 < length (trailIndices first_spark)"
    by (auto simp: TRAIL_LEN_def)
  have g: "age (newest one_click) + 1 < 90"
    unfolding oc by (simp add: newest_def spawnFirework_fst)
  note t = trail_propagation [OF c a b, of env_both shapes_zero "\<lambda>i k. 0", folded frame0_def]
  from t l have r1: "vec_at (curr (snd (engine_step frame0 (engine_run [click] (burst_init, buffers_zero)))))
        (trailIndices first_spark ! 1)
       = vec_at (curr (snd (engine_run [click] (burst_init, buffers_zero)))) (trailIndices first_spark ! (1 - 1))"
    by blast
  from l have l0: "0 < length (trailIndices first_spark)" by linarith
  from t l0 have r2: "vec_at (curr (snd (engine_step frame0 (engine_run [click] (burst_init, buffers_zero)))))
        (trailIndices first_spark ! 0)
       = vec_at (curr (snd (engine_run [click] (burst_init, buffers_zero)))) (headIdx first_spark)"
    by blast
  from t l have r3: "vec_at (currCol (snd (engine_step frame0 (engine_run [click] (burst_init, buffers_zero)))))
        (trailIndices first_spark ! 1)
       = scale3 (color (newest one_click))
           (trail_intensity (age (newest one_click) + 1) (length (trailIndices first_spark)) 1)"
    by blast
  have "(0::nat) < 1" by simp
  with t l g have r4: "trail_intensity (age (newest one_click) + 1) (length (trailIndices first_spark)) 1
       < trail_intensity (age (newest one_click) + 1) (length (trailIndices first_spark)) 0"
    by blast
  from r1 have r1': "vec_at (curr (snd (engine_step frame0 (engine_run [click] (burst_init, buffers_zero)))))
        (trailIndices first_spark ! 1)
       = vec_at (curr (snd (engine_run [click] (burst_init, buffers_zero)))) (trailIndices first_spark ! 0)"
    by simp
  from c a b l g r1' r2 r3 r4 show ?thesis by blast
qed

section \<open>Ages, frames and the cursor over an execution\<close>

lemma step_ages:
  assumes "\<forall>f \<in> set (fireworks (fst st)). age f < 90"
  shows "\<forall>f \<in> set (fireworks (fst (engine_step ev st))). age f < 90"
proof (cases ev)
  case (Spawn position now baseColor rnd)
  obtain bs b where st: "st = (bs, b)" by (cases st)
  show ?thesis using assms unfolding Spawn st engine_step.simps
    by (auto simp: spawnFirework_fst)
next
  case (Frame e sh rnd)
  show ?thesis unfolding Frame engine_step.simps animate_fireworks by auto
qed

lemma run_ages:
  "\<forall>f \<in> set (fireworks (fst st)). age f < 90 \<Longrightarrow>
   \<forall>f \<in> set (fireworks (fst (engine_run evs st))). age f < 90"
proof (induction evs arbitrary: st)
  case Nil
  then show ?case by simp
next
  case (Cons ev evs)
  from Cons.IH [OF step_ages [OF Cons.prems]] show ?case by simp
qed

lemma reachable_ages:
  "f \<in> set (fireworks (fst (engine_run evs (burst_init, b0)))) \<Longrightarrow> age f < 90"
  using run_ages [of "(burst_init, b0)" evs] by (simp add: burst_init_def)

lemma age_filter_twice:
  "filter (\<lambda>f. age f < 90) (map (\<lambda>f. f\<lparr> age := age f + n \<rparr>)
      (filter (\<lambda>f. age f < 90) (map (\<lambda>f. f\<lparr> age := age f + 1 \<rparr>) xs)))
   = filter (\<lambda>f. age f < 90) (map (\<lambda>f. f\<lparr> age := age f + Suc n \<rparr>) xs)"
  by (induction xs) auto

lemma frames_law:
  assumes "\<forall>ev \<in> set fs. \<not> is_spawn ev" "\<forall>f \<in> set (fireworks (fst st)). age f < 90"
  shows "fireworks (fst (engine_run fs st))
     = filter (\<lambda>f. age f < 90) (map (\<lambda>f. f\<lparr> age := age f + length fs \<rparr>) (fireworks (fst st)))"
  using assms
proof (induction fs arbitrary: st)
  case Nil
  then show ?case by simp
next
  case (Cons ev fs)
  from Cons.prems(1) obtain e sh rnd where ev: "ev = Frame e sh rnd"
    by (cases ev) simp_all
  from Cons.prems(1) have fs: "\<forall>ev \<in> set fs. \<not> is_spawn ev" by simp
  have "fireworks (fst (engine_run (ev # fs) st)) = fireworks (fst (engine_run fs (engine_step ev st)))"
    by simp
  also have "\<dots> = filter (\<lambda>f. age f < 90) (map (\<lambda>f. f\<lparr> age := age f + length fs \<rparr>)
      (fireworks (fst (engine_step ev st))))"
    by (rule Cons.IH [OF fs step_ages [OF Cons.prems(2)]])
  also have "\<dots> = filter (\<lambda>f. age f < 90)
      (map (\<lambda>f. f\<lparr> age := age f + Suc (length fs) \<rparr>) (fireworks (fst st)))"
    unfolding ev engine_step.simps animate_fireworks by (rule age_filter_twice)
  finally show ?case by simp
qed

lemma frames_cursor:
  "\<forall>ev \<in> set fs. \<not> is_spawn ev \<Longrightarrow>
   fireworkCursor (fst (engine_run fs st)) = fireworkCursor (fst st)"
proof (induction fs arbitrary: st)
  case Nil
  then show ?case by simp
next
  case (Cons ev fs)
  from Cons.prems obtain e sh rnd where ev: "ev = Frame e sh rnd"
    by (cases ev) simp_all
  from Cons.prems have fs: "\<forall>ev \<in> set fs. \<not> is_spawn ev" by simp
  from Cons.IH [OF fs, of "engine_step ev st"] show ?case
    by (simp add: ev animate_fst)
qed

lemma spawns_within_capacity:
  "length (filter is_spawn evs) + length (fireworks (fst st)) \<le> MAX_BURSTS \<Longrightarrow>
   within_capacity evs st"
proof (induction evs arbitrary: st)
  case Nil
  then show ?case by simp
next
  case (Cons ev evs)
  show ?case
  proof (cases "is_spawn ev")
    case True
    with Cons.prems have lt: "length (fireworks (fst st)) < MAX_BURSTS"
      and le: "length (filter is_spawn evs) + (length (fireworks (fst st)) + 1) \<le> MAX_BURSTS"
      by simp_all
    from step_length [of ev st] True
    have "length (fireworks (fst (engine_step ev st))) \<le> length (fireworks (fst st)) + 1" by simp
    with le have "length (filter is_spawn evs) + length (fireworks (fst (engine_step ev st))) \<le> MAX_BURSTS"
      by simp
    from Cons.IH [OF this] lt True show ?thesis by simp
  next
    case False
    from step_length [of ev st] False
    have "length (fireworks (fst (engine_step ev st))) \<le> length (fireworks (fst st))" by simp
    with Cons.prems False
    have "length (filter is_spawn evs) + length (fireworks (fst (engine_step ev st))) \<le> MAX_BURSTS"
      by simp
    from Cons.IH [OF this] False show ?thesis by simp
  qed
qed

lemma step_ring_offset:
  assumes "burst_ring v (fst st)"
  shows "burst_ring (v + 650 * length (filter is_spawn [ev])) (fst (engine_step ev st))"
proof (cases ev)
  case (Spawn position now baseColor rnd)
  obtain bs b where st: "st = (bs, b)" by (cases st)
  from assms spawn_ring [of v bs position now baseColor rnd b] show ?thesis
    by (simp add: Spawn st)
next
  case (Frame e sh rnd)
  from frame_ring [OF assms, of e sh rnd] show ?thesis by (simp add: Frame)
qed

lemma run_ring_offset:
  "burst_ring v (fst st) \<Longrightarrow>
   burst_ring (v + 650 * length (filter is_spawn evs)) (fst (engine_run evs st))"
proof (induction evs arbitrary: v st)
  case Nil
  then show ?case by simp
next
  case (Cons ev evs)
  from Cons.IH [OF step_ring_offset [OF Cons.prems, of ev]] show ?case
    by (cases "is_spawn ev") (simp_all add: algebra_simps)
qed

lemma next_spawn_indices:
  assumes "burst_ring v (fst st)"
  shows "firework_indices (newest (engine_step (Spawn position now baseColor rnd) (engine_run evs st)))
     = ring_seg (v + 650 * length (filter is_spawn evs))"
proof -
  obtain bs b where T: "engine_run evs st = (bs, b)" by (cases "engine_run evs st")
  from run_ring_offset [OF assms, of evs]
  have "fireworkCursor bs = ring_index (v + 650 * length (filter is_spawn evs))"
    by (simp add: T burst_ring_650)
  then show ?thesis
    unfolding T engine_step.simps
    by (simp only: spawned_indices slots_per_burst allocate_ring_seg fst_conv)
qed

lemma ring_cover:
  assumes "FIREWORK_PARTICLES_START \<le> i" "i < PARTICLE_COUNT"
  shows "\<exists>j < 47. i \<in> set (ring_seg (v + 650 * j))"
proof -
  define x where "x = i - FIREWORK_PARTICLES_START"
  define y where "y = v mod 30000"
  define d where "d = (if y \<le> x then x - y else x + 30000 - y)"
  from assms have x: "x < 30000" "i = FIREWORK_PARTICLES_START + x"
    using ring_size by (simp_all add: x_def)
  have y: "y < 30000" by (simp add: y_def)
  have d: "d < 30000"
  proof (cases "y \<le> x")
    case True
    then have "d = x - y" by (simp add: d_def)
    with x(1) show ?thesis by linarith
  next
    case False
    then have "d = x + 30000 - y" "x < y" by (simp_all add: d_def)
    then show ?thesis by linarith
  qed
  have "(y + d) mod 30000 = x"
  proof (cases "y \<le> x")
    case True
    then have "y + d = x" by (simp add: d_def)
    with x(1) show ?thesis by simp
  next
    case False
    then have "y + d = x + 30000" using y by (simp add: d_def)
    with x(1) show ?thesis by simp
  qed
  moreover have "(v + d) mod 30000 = (y + d) mod 30000"
    unfolding y_def by (simp add: mod_add_left_eq)
  ultimately have "ring_index (v + d) = i"
    unfolding ring_index_def ring_size x(2) by simp
  moreover have "v + d = v + 650 * (d div 650) + d mod 650" by simp
  ultimately have i: "i = ring_index (v + 650 * (d div 650) + d mod 650)" by simp
  have "d mod 650 \<in> set [0 ..< 650]" by simp
  then have "(\<lambda>m. ring_index (v + 650 * (d div 650) + m)) (d mod 650)
      \<in> (\<lambda>m. ring_index (v + 650 * (d div 650) + m)) ` set [0 ..< 650]"
    by (rule imageI)
  then have "i \<in> set (ring_seg (v + 650 * (d div 650)))"
    unfolding ring_seg_650 i by simp
  moreover from d have "d div 650 < 47"
    by (simp add: div_less_iff_less_mult)
  ultimately show ?thesis by blast
qed

lemma ring_member_segment:
  assumes "burst_ring v bs" "fw \<in> set (fireworks bs)"
  shows "\<exists>w. firework_indices fw = ring_seg w"
proof -
  from assms(2) obtain i where "i < length (fireworks bs)" "fireworks bs ! i = fw"
    by (auto simp: in_set_conv_nth)
  with ring_nth [OF assms(1), of i] show ?thesis by auto
qed

lemma ring_seg_hd: "hd (ring_seg w) = ring_index w"
proof -
  have "[0 ..< 650] = 0 # [Suc 0 ..< 650]" by (simp add: upt_conv_Cons)
  then show ?thesis unfolding ring_seg_650 by simp
qed

lemma ring_seg_range:
  "i \<in> set (ring_seg w) \<Longrightarrow> FIREWORK_PARTICLES_START \<le> i \<and> i < PARTICLE_COUNT"
  unfolding ring_seg_650 using ring_index_range by auto

section \<open>Two runs that reach the age of 89\<close>

lemma click_fw_age: "age (click_fw v) = 0"
  by (simp add: click_fw_def)

lemma click_fw_member_index:
  "i < 50 \<Longrightarrow> m < 13 \<Longrightarrow> ring_index (v + 13 * i + m) \<in> set (firework_indices (click_fw v))"
proof -
  assume i: "i < 50" and m: "m < 13"
  have "ring_spark (v + 13 * i) \<in> set (sparks (click_fw v))"
    using i by (simp add: click_fw_def)
  moreover have "ring_index (v + 13 * i + m) \<in> set (spark_indices (ring_spark (v + 13 * i)))"
    using m by (simp add: ring_spark_indices)
  ultimately show ?thesis by (auto simp: firework_indices_def)
qed

lemma init_cursor: "fireworkCursor (fst (burst_init, b)) = ring_index 0"
  by (simp add: burst_init_def ring_index_def)

lemma frame0_not_spawn: "\<not> is_spawn frame0"
  by (simp add: frame0_def)

lemma click_is_spawn: "is_spawn click"
  by (simp add: click_def)

lemma click_frame_state:
  "fireworks (fst (engine_run [click, frame0] (burst_init, buffers_zero))) = [(click_fw 0)\<lparr> age := 1 \<rparr>]
   \<and> fireworkCursor (fst (engine_run [click, frame0] (burst_init, buffers_zero))) = ring_index 650"
proof -
  let ?s1 = "engine_step click (burst_init, buffers_zero)"
  have s1: "fst ?s1 = burst_init\<lparr> fireworkCursor := ring_index (0 + 650), fireworks := [click_fw 0] \<rparr>"
    using click_step_fst [OF init_cursor, of buffers_zero] by (simp add: burst_init_def)
  have e: "engine_run [click, frame0] (burst_init, buffers_zero)
      = animate_particles env_both shapes_zero (\<lambda>i k. 0) ?s1"
    by (simp add: frame0_def)
  have "fst (animate_particles env_both shapes_zero (\<lambda>i k. 0) ?s1)
      = (fst ?s1)\<lparr> fireworks := filter (\<lambda>fw. age fw < 90)
                              (map (\<lambda>fw. fw\<lparr> age := age fw + 1 \<rparr>) (fireworks (fst ?s1))) \<rparr>"
    by (rule animate_fst)
  then show ?thesis unfolding e s1 by (simp add: click_fw_age)
qed

lemma lifecycle_fireworks:
  "fireworks (fst lifecycle_state) = [(click_fw 0)\<lparr> age := 89 \<rparr>, (click_fw 650)\<lparr> age := 88 \<rparr>]"
proof -
  let ?s2 = "engine_run [click, frame0] (burst_init, buffers_zero)"
  let ?s3 = "engine_step click ?s2"
  have c2: "fireworkCursor (fst ?s2) = ring_index 650" using click_frame_state by blast
  have f3: "fireworks (fst ?s3) = [(click_fw 0)\<lparr> age := 1 \<rparr>, click_fw 650]"
    unfolding click_step_fst [OF c2] using click_frame_state by simp
  have lr: "lifecycle_run = [click, frame0] @ [click] @ replicate 88 frame0"
    by (simp add: lifecycle_run_def)
  have e: "lifecycle_state = engine_run (replicate 88 frame0) ?s3"
    unfolding lifecycle_state_def lr engine_run_append by simp
  have a: "\<forall>f \<in> set (fireworks (fst ?s3)). age f < 90"
    unfolding f3 by (simp add: click_fw_age)
  have n: "\<forall>ev \<in> set (replicate 88 frame0). \<not> is_spawn ev"
    by (simp add: frame0_not_spawn)
  show ?thesis
    unfolding e frames_law [OF n a] f3 by (simp add: click_fw_age)
qed

lemma lifecycle_cursor: "fireworkCursor (fst lifecycle_state) = ring_index 1300"
proof -
  let ?s2 = "engine_run [click, frame0] (burst_init, buffers_zero)"
  let ?s3 = "engine_step click ?s2"
  have c2: "fireworkCursor (fst ?s2) = ring_index 650" using click_frame_state by blast
  have c3: "fireworkCursor (fst ?s3) = ring_index 1300"
    unfolding click_step_fst [OF c2] by simp
  have lr: "lifecycle_run = [click, frame0] @ [click] @ replicate 88 frame0"
    by (simp add: lifecycle_run_def)
  have e: "lifecycle_state = engine_run (replicate 88 frame0) ?s3"
    unfolding lifecycle_state_def lr engine_run_append by simp
  have n: "\<forall>ev \<in> set (replicate 88 frame0). \<not> is_spawn ev"
    by (simp add: frame0_not_spawn)
  show ?thesis unfolding e frames_cursor [OF n] by (rule c3)
qed

lemma lifecycle_capacity: "within_capacity lifecycle_run (burst_init, buffers_zero)"
  by (rule spawns_within_capacity)
     (simp add: lifecycle_run_def click_is_spawn frame0_not_spawn burst_init_def max_bursts)

lemma crowded_fireworks:
  "fireworks (fst crowded_state)
     = (click_fw 0)\<lparr> age := 89 \<rparr> # map (\<lambda>j. (click_fw (650 + 650 * j))\<lparr> age := 88 \<rparr>) [0 ..< 46]"
proof -
  let ?s2 = "engine_run [click, frame0] (burst_init, buffers_zero)"
  let ?s3 = "engine_run (replicate 46 click) ?s2"
  have c2: "fireworkCursor (fst ?s2) = ring_index 650" using click_frame_state by blast
  have f3: "fireworks (fst ?s3)
      = (click_fw 0)\<lparr> age := 1 \<rparr> # map (\<lambda>j. click_fw (650 + 650 * j)) [0 ..< 46]"
    using clicks_state [OF c2, of 46] click_frame_state by simp
  have e: "crowded_state = engine_run (replicate 88 frame0) ?s3"
    unfolding crowded_state_def crowded_run_def by (simp only: engine_run_append)
  have a: "\<forall>f \<in> set (fireworks (fst ?s3)). age f < 90"
    unfolding f3 by (auto simp: click_fw_age)
  have n: "\<forall>ev \<in> set (replicate 88 frame0). \<not> is_spawn ev"
    by (simp add: frame0_not_spawn)
  show ?thesis
    unfolding e frames_law [OF n a] f3
    by (simp add: click_fw_age filter_map o_def del: upt_Suc)
qed

lemma crowded_after_frame:
  "fireworks (fst (engine_step frame0 crowded_state))
     = map (\<lambda>j. (click_fw (650 + 650 * j))\<lparr> age := 89 \<rparr>) [0 ..< 46]"
  unfolding frame0_def engine_step.simps(2) animate_fireworks crowded_fireworks
  by (simp add: click_fw_age filter_map o_def del: upt_Suc)

lemma click_fw_indices: "firework_indices (click_fw v) = ring_seg v"
proof -
  let ?bs = "burst_init\<lparr> fireworkCursor := ring_index v \<rparr>"
  have c: "fireworkCursor (fst (?bs, buffers_zero)) = ring_index v" by simp
  have "newest (engine_step click (?bs, buffers_zero)) = click_fw v"
    unfolding newest_def click_step_fst [OF c] by simp
  moreover have "firework_indices (newest (engine_step click (?bs, buffers_zero))) = ring_seg v"
    unfolding click_def engine_step.simps
    by (simp only: spawned_indices slots_per_burst) (simp add: allocate_ring_seg)
  ultimately show ?thesis by simp
qed

lemma click_fw_first_head: "headIdx (hd (sparks (click_fw v))) = ring_index v"
proof -
  have "[0 ..< 50] = 0 # [Suc 0 ..< 50]" by (simp add: upt_conv_Cons)
  then show ?thesis by (simp add: click_fw_def ring_spark_head)
qed


text \<open>
  Claim C5, as the code has it. In every reachable state: a spawn appends one firework
  of age 0 and leaves the others as they are; a frame update raises the age of every
  live firework by exactly 1 and keeps those whose new age is below 90. So every live
  firework has an age below 90, it is removed in the update in which its age reaches 90,
  and through \<open>n\<close> frame updates a firework of age \<open>a\<close> stays live exactly while
  \<open>a + n < 90\<close>. If no spawn happened while 46 fireworks were alive, no firework that
  stays live holds an index of the removed one. The indices of a firework lie in the
  reserved range; the allocator, which looks only at its cursor, returns exactly these
  indices to a spawn whose cursor stands at the firework's first index, and whatever
  frames come in between, each of them is handed to one of the next 47 spawns.
\<close>

theorem firework_lifecycle:
  assumes "fw \<in> set (fireworks (fst (engine_run evs (burst_init, b0))))"
  shows "age fw < 90
    \<and> fireworks (fst (engine_step (Spawn position now baseColor draws) (engine_run evs (burst_init, b0))))
        = fireworks (fst (engine_run evs (burst_init, b0)))
          @ [newest (engine_step (Spawn position now baseColor draws) (engine_run evs (burst_init, b0)))]
    \<and> age (newest (engine_step (Spawn position now baseColor draws) (engine_run evs (burst_init, b0)))) = 0
    \<and> fireworks (fst (engine_step (Frame e sh rnd) (engine_run evs (burst_init, b0))))
        = filter (\<lambda>f. age f < 90)
            (map (\<lambda>f. f\<lparr> age := age f + 1 \<rparr>) (fireworks (fst (engine_run evs (burst_init, b0)))))
    \<and> (\<forall>fs. (\<forall>ev \<in> set fs. \<not> is_spawn ev) \<longrightarrow>
          fireworks (fst (engine_run fs (engine_run evs (burst_init, b0))))
            = filter (\<lambda>f. age f < 90)
                (map (\<lambda>f. f\<lparr> age := age f + length fs \<rparr>)
                   (fireworks (fst (engine_run evs (burst_init, b0))))))
    \<and> (within_capacity evs (burst_init, b0) \<and> age fw + 1 = 90 \<longrightarrow>
          (\<forall>g \<in> set (fireworks (fst (engine_step (Frame e sh rnd) (engine_run evs (burst_init, b0))))).
             set (firework_indices g) \<inter> set (firework_indices fw) = {}))
    \<and> (\<forall>i \<in> set (firework_indices fw). FIREWORK_PARTICLES_START \<le> i \<and> i < PARTICLE_COUNT)
    \<and> fst (allocateParticles (hd (firework_indices fw)) (SPARK_CNT * (1 + TRAIL_LEN)))
        = firework_indices fw
    \<and> (\<forall>i \<in> set (firework_indices fw). \<exists>j < 47. \<forall>evs' position' now' baseColor' rnd'.
          length (filter is_spawn evs') = j \<longrightarrow>
          i \<in> set (firework_indices (newest (engine_step (Spawn position' now' baseColor' rnd')
                  (engine_run evs' (engine_run evs (burst_init, b0)))))))"
proof -
  let ?S = "engine_run evs (burst_init, b0)"
  let ?fws = "fireworks (fst ?S)"
  let ?after = "fireworks (fst (engine_step (Frame e sh rnd) ?S))"
  from reachable_ring obtain v where v: "burst_ring v (fst ?S)" by blast
  from ring_member_segment [OF v assms] obtain w where w: "firework_indices fw = ring_seg w"
    by blast
  have ages: "\<forall>f \<in> set ?fws. age f < 90" using reachable_ages by blast
  have 1: "age fw < 90" using ages assms by blast
  have 2: "age (newest (engine_step (Spawn position now baseColor draws) ?S)) = 0"
    by (cases ?S) (simp add: newest_def spawnFirework_fst)
  have 9: "fireworks (fst (engine_step (Spawn position now baseColor draws) ?S))
      = ?fws @ [newest (engine_step (Spawn position now baseColor draws) ?S)]"
    by (cases ?S) (simp add: newest_def spawnFirework_fst)
  have 3: "?after = filter (\<lambda>f. age f < 90) (map (\<lambda>f. f\<lparr> age := age f + 1 \<rparr>) ?fws)"
    by (simp add: animate_fireworks)
  have 4: "\<forall>fs. (\<forall>ev \<in> set fs. \<not> is_spawn ev) \<longrightarrow>
      fireworks (fst (engine_run fs ?S))
        = filter (\<lambda>f. age f < 90) (map (\<lambda>f. f\<lparr> age := age f + length fs \<rparr>) ?fws)"
    using frames_law [OF _ ages] by blast
  have 5: "within_capacity evs (burst_init, b0) \<and> age fw + 1 = 90 \<longrightarrow>
      (\<forall>g \<in> set ?after. set (firework_indices g) \<inter> set (firework_indices fw) = {})"
  proof (intro impI ballI)
    fix g assume a: "within_capacity evs (burst_init, b0) \<and> age fw + 1 = 90" and g: "g \<in> set ?after"
    have "length (fireworks (fst (burst_init, b0))) \<le> MAX_BURSTS" by (simp add: burst_init_def)
    with a run_capacity [of evs "(burst_init, b0)"] have "length ?fws \<le> 46"
      by (simp add: max_bursts)
    from ring_disjoint [OF v this] have d: "fireworks_disjoint ?fws" .
    from g obtain f where f: "f \<in> set ?fws" "g = f\<lparr> age := age f + 1 \<rparr>" "age f + 1 < 90"
      unfolding 3 by auto
    with a have "fw \<noteq> f" by auto
    from disjoint_members [OF d assms f(1) this]
    show "set (firework_indices g) \<inter> set (firework_indices fw) = {}"
      by (simp add: f(2))
  qed
  have 6: "\<forall>i \<in> set (firework_indices fw). FIREWORK_PARTICLES_START \<le> i \<and> i < PARTICLE_COUNT"
    unfolding w using ring_seg_range by blast
  have 7: "fst (allocateParticles (hd (firework_indices fw)) (SPARK_CNT * (1 + TRAIL_LEN)))
      = firework_indices fw"
    unfolding w ring_seg_hd slots_per_burst allocate_ring_seg by simp
  have 8: "\<forall>i \<in> set (firework_indices fw). \<exists>j < 47. \<forall>evs' position' now' baseColor' rnd'.
      length (filter is_spawn evs') = j \<longrightarrow>
      i \<in> set (firework_indices (newest (engine_step (Spawn position' now' baseColor' rnd')
              (engine_run evs' ?S))))"
  proof
    fix i assume "i \<in> set (firework_indices fw)"
    with 6 have "FIREWORK_PARTICLES_START \<le> i" "i < PARTICLE_COUNT" by blast+
    from ring_cover [OF this, of v] obtain j where j: "j < 47" "i \<in> set (ring_seg (v + 650 * j))"
      by blast
    have "\<forall>evs' position' now' baseColor' rnd'.
      length (filter is_spawn evs') = j \<longrightarrow>
      i \<in> set (firework_indices (newest (engine_step (Spawn position' now' baseColor' rnd')
              (engine_run evs' ?S))))"
    proof (intro allI impI)
      fix evs' position' now' baseColor' rnd'
      assume l: "length (filter is_spawn evs') = j"
      show "i \<in> set (firework_indices (newest (engine_step (Spawn position' now' baseColor' rnd')
              (engine_run evs' ?S))))"
        unfolding next_spawn_indices [OF v] l using j(2) .
    qed
    with j(1) show "\<exists>j < 47. \<forall>evs' position' now' baseColor' rnd'.
      length (filter is_spawn evs') = j \<longrightarrow>
      i \<in> set (firework_indices (newest (engine_step (Spawn position' now' baseColor' rnd')
              (engine_run evs' ?S))))"
      by blast
  qed
  from 1 2 3 4 5 6 7 8 9 show ?thesis by blast
qed

theorem firework_lifecycle_witness:
  "hd (fireworks (fst lifecycle_state)) \<in> set (fireworks (fst lifecycle_state))
   \<and> within_capacity lifecycle_run (burst_init, buffers_zero)
   \<and> age (hd (fireworks (fst lifecycle_state))) + 1 = 90
   \<and> length (fireworks (fst lifecycle_state)) = 2
   \<and> length (fireworks (fst (engine_step frame0 lifecycle_state))) = 1
   \<and> set (firework_indices (hd (fireworks (fst (engine_step frame0 lifecycle_state)))))
        \<inter> set (firework_indices (hd (fireworks (fst lifecycle_state)))) = {}
   \<and> 150000 \<in> set (firework_indices (hd (fireworks (fst lifecycle_state))))
   \<and> FIREWORK_PARTICLES_START \<le> 150000 \<and> 150000 < PARTICLE_COUNT
   \<and> fst (allocateParticles 150000 (SPARK_CNT * (1 + TRAIL_LEN)))
        = firework_indices (hd (fireworks (fst lifecycle_state)))
   \<and> (\<exists>j < 47. 150000 \<in> set (firework_indices (newest
          (engine_step click (engine_run (replicate j click) lifecycle_state)))))
   \<and> length (fireworks (fst (engine_run (replicate 89 frame0) one_click))) = 1
   \<and> fireworks (fst (engine_run (replicate 90 frame0) one_click)) = []"
proof -
  let ?fw = "hd (fireworks (fst lifecycle_state))"
  have fw: "?fw = (click_fw 0)\<lparr> age := 89 \<rparr>" by (simp add: lifecycle_fireworks)
  have a: "hd (fireworks (fst (engine_run lifecycle_run (burst_init, buffers_zero))))
      \<in> set (fireworks (fst (engine_run lifecycle_run (burst_init, buffers_zero))))"
    unfolding lifecycle_state_def [symmetric] by (simp add: lifecycle_fireworks)
  note t = firework_lifecycle [OF a, where e = env_both and sh = shapes_zero and rnd = "\<lambda>i k. 0",
      folded frame0_def lifecycle_state_def]
  from a have r0: "?fw \<in> set (fireworks (fst lifecycle_state))"
    unfolding lifecycle_state_def .
  note c = lifecycle_capacity
  have g: "age ?fw + 1 = 90" by (simp add: fw)
  have l2: "length (fireworks (fst lifecycle_state)) = 2" by (simp add: lifecycle_fireworks)
  from t have "fireworks (fst (engine_step frame0 lifecycle_state))
      = filter (\<lambda>f. age f < 90) (map (\<lambda>f. f\<lparr> age := age f + 1 \<rparr>) (fireworks (fst lifecycle_state)))"
    by blast
  then have af: "fireworks (fst (engine_step frame0 lifecycle_state)) = [(click_fw 650)\<lparr> age := 89 \<rparr>]"
    by (simp add: lifecycle_fireworks)
  then have l1: "length (fireworks (fst (engine_step frame0 lifecycle_state))) = 1" by simp
  from af have m: "hd (fireworks (fst (engine_step frame0 lifecycle_state)))
      \<in> set (fireworks (fst (engine_step frame0 lifecycle_state)))" by simp
  from t c g m have dj: "set (firework_indices (hd (fireworks (fst (engine_step frame0 lifecycle_state)))))
        \<inter> set (firework_indices ?fw) = {}"
    by blast
  have ix: "firework_indices ?fw = ring_seg 0" by (simp add: fw click_fw_indices)
  have "ring_index (0 + 13 * 0 + 0) \<in> set (firework_indices (click_fw 0))"
    by (rule click_fw_member_index) simp_all
  then have i: "150000 \<in> set (firework_indices ?fw)"
    by (simp add: fw ring_index_0)
  from t i have rg: "FIREWORK_PARTICLES_START \<le> 150000 \<and> 150000 < PARTICLE_COUNT" by blast
  have h: "hd (firework_indices ?fw) = 150000"
    unfolding ix ring_seg_hd by (rule ring_index_0)
  from t have "fst (allocateParticles (hd (firework_indices ?fw)) (SPARK_CNT * (1 + TRAIL_LEN)))
      = firework_indices ?fw" by blast
  then have e1: "fst (allocateParticles 150000 (SPARK_CNT * (1 + TRAIL_LEN))) = firework_indices ?fw"
    unfolding h .
  from t i obtain j where j: "j < 47"
    and jj: "\<forall>evs' position' now' baseColor' rnd'.
      length (filter is_spawn evs') = j \<longrightarrow>
      150000 \<in> set (firework_indices (newest (engine_step (Spawn position' now' baseColor' rnd')
              (engine_run evs' lifecycle_state))))"
    by blast
  have "length (filter is_spawn (replicate j click)) = j" by (simp add: click_is_spawn)
  with jj have "150000 \<in> set (firework_indices (newest (engine_step (Spawn (0, 0, 0) 0 (1, 1, 1) (\<lambda>k. (0, 0, 0)))
              (engine_run (replicate j click) lifecycle_state))))"
    by blast
  with j have rv: "\<exists>j < 47. 150000 \<in> set (firework_indices (newest
          (engine_step click (engine_run (replicate j click) lifecycle_state))))"
    unfolding click_def by blast
  have oc: "fireworks (fst one_click) = [click_fw 0]"
    unfolding one_click_def using click_step_fst [OF init_cursor, of buffers_zero]
    by (simp add: burst_init_def)
  have b: "click_fw 0 \<in> set (fireworks (fst (engine_run [click] (burst_init, buffers_zero))))"
    using oc by (simp add: one_click_def)
  note u = firework_lifecycle [OF b, folded one_click_def]
  have n89: "\<forall>ev \<in> set (replicate 89 frame0). \<not> is_spawn ev" by (simp add: frame0_not_spawn)
  have n90: "\<forall>ev \<in> set (replicate 90 frame0). \<not> is_spawn ev" by (simp add: frame0_not_spawn)
  from u n89 have "fireworks (fst (engine_run (replicate 89 frame0) one_click))
      = filter (\<lambda>f. age f < 90) (map (\<lambda>f. f\<lparr> age := age f + length (replicate 89 frame0) \<rparr>)
          (fireworks (fst one_click)))"
    by blast
  then have k89: "length (fireworks (fst (engine_run (replicate 89 frame0) one_click))) = 1"
    by (simp add: oc click_fw_age)
  from u n90 have "fireworks (fst (engine_run (replicate 90 frame0) one_click))
      = filter (\<lambda>f. age f < 90) (map (\<lambda>f. f\<lparr> age := age f + length (replicate 90 frame0) \<rparr>)
          (fireworks (fst one_click)))"
    by blast
  then have k90: "fireworks (fst (engine_run (replicate 90 frame0) one_click)) = []"
    by (simp add: oc click_fw_age)
  from r0 c g l2 l1 dj i rg e1 rv k89 k90 show ?thesis by blast
qed


text \<open>
  Claim C5 as stated fails. A firework is removed when its age reaches 90, not when it
  exceeds 90: one of age 89 is removed by the next update, at age 90. After a click, a
  frame and 46 more clicks the ring has wrapped; 88 frames later the next frame removes
  the first firework, and its index 150000 is still held by the last live firework. And
  the spawn that follows a removal is handed the slots at the cursor, not those of the
  removed firework: after a click, a frame, a click and 89 frames the first firework is
  gone, and the next spawn does not get its index 150000.
\<close>

theorem removed_at_90_shared_counterexample:
  "fst (fireworks_filter [fw_old] (buffers_count, {})) = [] \<and> \<not> 90 < age fw_old + 1
   \<and> length (fireworks (fst crowded_state)) = 47
   \<and> age (hd (fireworks (fst crowded_state))) + 1 = 90
   \<and> \<not> 90 < age (hd (fireworks (fst crowded_state))) + 1
   \<and> length (fireworks (fst (engine_step frame0 crowded_state))) = 46
   \<and> hd (fireworks (fst crowded_state)) \<notin> set (fireworks (fst (engine_step frame0 crowded_state)))
   \<and> 150000 \<in> set (firework_indices (hd (fireworks (fst crowded_state))))
   \<and> 150000 \<in> set (firework_indices (last (fireworks (fst (engine_step frame0 crowded_state)))))
   \<and> 150000 \<in> set (firework_indices (hd (fireworks (fst lifecycle_state))))
   \<and> length (fireworks (fst (engine_step frame0 lifecycle_state))) = 1
   \<and> 150000 \<notin> set (firework_indices (newest (engine_step click (engine_step frame0 lifecycle_state))))"
proof -
  have 1: "fst (fireworks_filter [fw_old] (buffers_count, {})) = [] \<and> \<not> 90 < age fw_old + 1"
    by (simp add: fireworks_filter_eq fw_old_def fw_small_def)
  have h: "hd (fireworks (fst crowded_state)) = (click_fw 0)\<lparr> age := 89 \<rparr>"
    by (simp add: crowded_fireworks)
  have 2: "length (fireworks (fst crowded_state)) = 47" by (simp add: crowded_fireworks)
  have 3: "age (hd (fireworks (fst crowded_state))) + 1 = 90" by (simp add: h)
  have 4: "\<not> 90 < age (hd (fireworks (fst crowded_state))) + 1" by (simp add: h)
  have 5: "length (fireworks (fst (engine_step frame0 crowded_state))) = 46"
    by (simp add: crowded_after_frame)
  have 6: "hd (fireworks (fst crowded_state)) \<notin> set (fireworks (fst (engine_step frame0 crowded_state)))"
  proof
    assume "hd (fireworks (fst crowded_state)) \<in> set (fireworks (fst (engine_step frame0 crowded_state)))"
    then obtain j where j: "j < 46" "(click_fw 0)\<lparr> age := 89 \<rparr> = (click_fw (650 + 650 * j))\<lparr> age := 89 \<rparr>"
      unfolding h crowded_after_frame by auto
    from j(2) have "sparks (click_fw 0) = sparks (click_fw (650 + 650 * j))"
      by (metis firework.select_convs(4) firework.surjective firework.update_convs(2))
    then have "headIdx (hd (sparks (click_fw 0))) = headIdx (hd (sparks (click_fw (650 + 650 * j))))"
      by simp
    then have "ring_index (650 * Suc j + 13 * 0) = 150000"
      by (simp add: click_fw_first_head ring_index_0)
    moreover have "ring_index (650 * Suc j + 13 * 0) \<noteq> 150000"
      using j(1) by (intro later_heads) simp_all
    ultimately show False by simp
  qed
  have "ring_index (0 + 13 * 0 + 0) \<in> set (firework_indices (click_fw 0))"
    by (rule click_fw_member_index) simp_all
  then have 7: "150000 \<in> set (firework_indices (hd (fireworks (fst crowded_state))))"
    by (simp add: h ring_index_0)
  have "[0 ..< Suc 45] = [0 ..< 45] @ [45]" by (rule upt_Suc_append) simp
  moreover have "Suc 45 = 46" by simp
  ultimately have "[0 ..< 46] = [0 ..< 45] @ [45]" by (simp only:)
  then have "last (fireworks (fst (engine_step frame0 crowded_state))) = (click_fw 29900)\<lparr> age := 89 \<rparr>"
    unfolding crowded_after_frame by (simp del: upt_Suc)
  moreover have "ring_index (29900 + 13 * 7 + 9) \<in> set (firework_indices (click_fw 29900))"
    by (rule click_fw_member_index) simp_all
  moreover have "ring_index (29900 + 13 * 7 + 9) = 150000"
    by (simp add: ring_index_zero_iff)
  ultimately have 8: "150000 \<in> set (firework_indices (last (fireworks (fst (engine_step frame0 crowded_state)))))"
    by simp
  have "ring_index (0 + 13 * 0 + 0) \<in> set (firework_indices (click_fw 0))"
    by (rule click_fw_member_index) simp_all
  then have 9: "150000 \<in> set (firework_indices (hd (fireworks (fst lifecycle_state))))"
    by (simp add: lifecycle_fireworks ring_index_0)
  have 10: "length (fireworks (fst (engine_step frame0 lifecycle_state))) = 1"
    unfolding frame0_def engine_step.simps(2) animate_fireworks lifecycle_fireworks
    by (simp add: click_fw_age)
  have "fireworkCursor (fst (engine_step frame0 lifecycle_state)) = ring_index 1300"
    unfolding frame0_def engine_step.simps(2) animate_fst using lifecycle_cursor by simp
  from click_step_fst [OF this]
  have "newest (engine_step click (engine_step frame0 lifecycle_state)) = click_fw 1300"
    by (simp add: newest_def)
  moreover have "150000 \<notin> set (ring_seg 1300)"
  proof
    assume "150000 \<in> set (ring_seg 1300)"
    then obtain m where m: "m < 650" "ring_index (1300 + m) = 150000"
      unfolding ring_seg_650 by auto
    from m(1) have "ring_index (1300 + m) \<noteq> 150000"
      by (intro ring_index_low) simp_all
    with m(2) show False by simp
  qed
  ultimately have 11: "150000 \<notin> set (firework_indices (newest
      (engine_step click (engine_step frame0 lifecycle_state))))"
    by (simp add: click_fw_indices)
  from 1 2 3 4 5 6 7 8 9 10 11 show ?thesis by blast
qed

end
